theory Spec2Isabelle
  imports Complex_Main "HOL-Library.Sublist"
begin

section \<open>JavaScript values used by the map page\<close>

text \<open>
  The page script \<^verbatim>\<open>js/index.js\<close> works on JavaScript strings and numbers.
  A string is modelled by the bytes of its UTF-8 encoding, as a \<^typ>\<open>string\<close> (the
  strings are well-formed: no lone surrogate; a character outside ASCII is several
  bytes). Numbers are modelled as \<open>jsnum\<close>: the three special values of an IEEE
  double and the finite ones, a finite one carried by its exact rational value.
\<close>

datatype jsnum = NaN | PosInf | NegInf | Finite rat

text \<open>The global \<^verbatim>\<open>isNaN\<close> on a number.\<close>

definition isNaN :: "jsnum \<Rightarrow> bool" where
  "isNaN x = (x = NaN)"

text \<open>\<^verbatim>\<open>Number.isFinite\<close>, which the script never calls; the specification speaks of it.\<close>

definition isFinite :: "jsnum \<Rightarrow> bool" where
  "isFinite x = (case x of Finite _ \<Rightarrow> True | _ \<Rightarrow> False)"

datatype jsval = JUndefined | JNull | JBool bool | JNum jsnum | JStr string

subsection \<open>String primitives\<close>

text \<open>
  The white space and line terminators of ECMAScript, each by its UTF-8 bytes: TAB, LF,
  VT, FF, CR, SPACE, U+00A0, U+1680, U+2000 to U+200A, U+2028, U+2029, U+202F, U+205F,
  U+3000 and U+FEFF.
\<close>

definition whiteSpaceSeqs :: "string list" where
  "whiteSpaceSeqs =
     [[CHR 0x09], [CHR 0x0A], [CHR 0x0B], [CHR 0x0C], [CHR 0x0D], [CHR 0x20],
      [CHR 0xC2, CHR 0xA0],
      [CHR 0xE1, CHR 0x9A, CHR 0x80],
      [CHR 0xE2, CHR 0x80, CHR 0x80], [CHR 0xE2, CHR 0x80, CHR 0x81], [CHR 0xE2, CHR 0x80, CHR 0x82],
      [CHR 0xE2, CHR 0x80, CHR 0x83], [CHR 0xE2, CHR 0x80, CHR 0x84], [CHR 0xE2, CHR 0x80, CHR 0x85],
      [CHR 0xE2, CHR 0x80, CHR 0x86], [CHR 0xE2, CHR 0x80, CHR 0x87], [CHR 0xE2, CHR 0x80, CHR 0x88],
      [CHR 0xE2, CHR 0x80, CHR 0x89], [CHR 0xE2, CHR 0x80, CHR 0x8A],
      [CHR 0xE2, CHR 0x80, CHR 0xA8], [CHR 0xE2, CHR 0x80, CHR 0xA9], [CHR 0xE2, CHR 0x80, CHR 0xAF],
      [CHR 0xE2, CHR 0x81, CHR 0x9F],
      [CHR 0xE3, CHR 0x80, CHR 0x80],
      [CHR 0xEF, CHR 0xBB, CHR 0xBF]]"

text \<open>
  The string without the longest prefix made of the given sequences. In a well-formed
  UTF-8 string a prefix (or, read backwards, a suffix) that equals the encoding of a
  character is that character.
\<close>

fun stripSeqs :: "string list \<Rightarrow> string \<Rightarrow> string" where
  "stripSeqs ws [] = []"
| "stripSeqs ws (c # cs) =
     (case find (\<lambda>w. w \<noteq> [] \<and> prefix w (c # cs)) ws of
        None \<Rightarrow> c # cs
      | Some w \<Rightarrow> stripSeqs ws (drop (length w - 1) cs))"

definition isDigit :: "char \<Rightarrow> bool" where
  "isDigit c = (48 \<le> (of_char c :: nat) \<and> (of_char c :: nat) \<le> 57)"

text \<open>\<^verbatim>\<open>String.prototype.trim\<close>: white space and line terminators go from both ends.\<close>

definition trim :: "string \<Rightarrow> string" where
  "trim s = rev (stripSeqs (map rev whiteSpaceSeqs) (rev (stripSeqs whiteSpaceSeqs s)))"

text \<open>
  \<^verbatim>\<open>String.prototype.toLowerCase\<close> is the case mapping of the Unicode version the
  browser implements. The functions below that call it take it as their first argument
  \<open>lower\<close>, and nothing is assumed of it. On ASCII strings it is the following
  function, which the examples use.
\<close>

definition asciiLowerChar :: "char \<Rightarrow> char" where
  "asciiLowerChar c =
     (if 65 \<le> (of_char c :: nat) \<and> (of_char c :: nat) \<le> 90
      then char_of ((of_char c :: nat) + 32) else c)"

definition asciiLowerCase :: "string \<Rightarrow> string" where
  "asciiLowerCase s = map asciiLowerChar s"

text \<open>\<^verbatim>\<open>s.includes(t)\<close>: \<open>t\<close> occurs in \<open>s\<close> as a contiguous substring.\<close>

fun str_includes :: "string \<Rightarrow> string \<Rightarrow> bool" where
  "str_includes [] t = (t = [])"
| "str_includes (c # cs) t = (prefix t (c # cs) \<or> str_includes cs t)"

text \<open>
  \<^verbatim>\<open>s.split(sep)\<close> for a non-empty separator: the pieces of \<open>s\<close> between the
  occurrences of \<open>sep\<close>, found left to right without overlap. The accumulator holds the
  current piece reversed.
\<close>

fun split_acc :: "string \<Rightarrow> string \<Rightarrow> string \<Rightarrow> string list" where
  "split_acc sep acc [] = [rev acc]"
| "split_acc sep acc (c # cs) =
     (if sep \<noteq> [] \<and> prefix sep (c # cs)
      then rev acc # split_acc sep [] (drop (length sep - 1) cs)
      else split_acc sep (c # acc) cs)"

definition js_split :: "string \<Rightarrow> string \<Rightarrow> string list" where
  "js_split s sep = split_acc sep [] s"

text \<open>\<^verbatim>\<open>a || b\<close> on strings: the empty string is falsy.\<close>

definition or_str :: "string \<Rightarrow> string \<Rightarrow> string" where
  "or_str a b = (if a = [] then b else a)"

text \<open>\<^verbatim>\<open>a || b\<close> where \<open>a\<close> is a property that may be missing (\<open>None\<close>).\<close>

definition or_default :: "string option \<Rightarrow> string \<Rightarrow> string" where
  "or_default a b = (case a of None \<Rightarrow> b | Some x \<Rightarrow> or_str x b)"

subsection \<open>Numbers to strings and back\<close>

definition digitChar :: "nat \<Rightarrow> char" where
  "digitChar d = ''0123456789'' ! d"

text \<open>The decimal digits of a natural number, as template literals print an integer.\<close>

fun showNat :: "nat \<Rightarrow> string" where
  "showNat n = (if n < 10 then [digitChar n] else showNat (n div 10) @ [digitChar (n mod 10)])"

declare showNat.simps [simp del]

definition showInt :: "int \<Rightarrow> string" where
  "showInt i = (if i < 0 then CHR ''-'' # showNat (nat (- i)) else showNat (nat i))"

definition digitsVal :: "string \<Rightarrow> nat" where
  "digitsVal ds = foldl (\<lambda>a c. 10 * a + ((of_char c :: nat) - 48)) 0 ds"

definition pow10 :: "int \<Rightarrow> rat" where
  "pow10 e = (if 0 \<le> e then 10 ^ nat e else 1 / 10 ^ nat (- e))"

text \<open>
  Rounding to a double is not carried out on finite values; what is kept is the step
  from a literal too large for a double to an infinity (round-to-nearest turns every
  magnitude from \<open>2^1024 - 2^970\<close> on into an infinity).
\<close>

definition toDouble :: "rat \<Rightarrow> jsnum" where
  "toDouble v =
     (if 2 ^ 1024 - 2 ^ 970 \<le> v then PosInf
      else if v \<le> - (2 ^ 1024 - 2 ^ 970) then NegInf
      else Finite v)"

text \<open>The exponent part \<^verbatim>\<open>e[+-]digits\<close> of a decimal literal; 0 when there is none.\<close>

definition parseExponent :: "string \<Rightarrow> int" where
  "parseExponent r =
     (case r of
        [] \<Rightarrow> 0
      | c # r' \<Rightarrow>
          if c = CHR ''e'' \<or> c = CHR ''E'' then
            (case r' of
               [] \<Rightarrow> 0
             | d # r'' \<Rightarrow>
                 if d = CHR ''-'' then - int (digitsVal (takeWhile isDigit r''))
                 else if d = CHR ''+'' then int (digitsVal (takeWhile isDigit r''))
                 else int (digitsVal (takeWhile isDigit r')))
          else 0)"

text \<open>
  The longest prefix that is an unsigned decimal literal (digits, an optional fraction,
  an optional exponent); \<open>None\<close> when no prefix is one.
\<close>

definition parseUnsigned :: "string \<Rightarrow> rat option" where
  "parseUnsigned u =
     (let ip = takeWhile isDigit u;
          r1 = dropWhile isDigit u;
          fp = (case r1 of [] \<Rightarrow> [] | c # r \<Rightarrow> if c = CHR ''.'' then takeWhile isDigit r else []);
          r2 = (case r1 of [] \<Rightarrow> [] | c # r \<Rightarrow> if c = CHR ''.'' then dropWhile isDigit r else r1)
      in if ip = [] \<and> fp = [] then None
         else Some (of_nat (digitsVal (ip @ fp)) * pow10 (parseExponent r2 - int (length fp))))"

text \<open>
  \<^verbatim>\<open>parseFloat\<close> on a string: leading white space and line terminators are
  skipped, then come a sign and \<^verbatim>\<open>Infinity\<close> or a decimal literal.
\<close>

definition parseFloat_string :: "string \<Rightarrow> jsnum" where
  "parseFloat_string s =
     (let t = stripSeqs whiteSpaceSeqs s;
          neg = (case t of [] \<Rightarrow> False | c # r \<Rightarrow> c = CHR ''-'');
          u = (case t of [] \<Rightarrow> [] | c # r \<Rightarrow> if c = CHR ''-'' \<or> c = CHR ''+'' then r else t)
      in if prefix ''Infinity'' u then (if neg then NegInf else PosInf)
         else (case parseUnsigned u of
                 None \<Rightarrow> NaN
               | Some v \<Rightarrow> toDouble (if neg then - v else v)))"

text \<open>
  \<^verbatim>\<open>parseFloat\<close> converts its argument to a string first: a number prints and
  parses back to itself, \<^verbatim>\<open>undefined\<close>, \<^verbatim>\<open>null\<close> and booleans print as words that
  are no number.
\<close>

fun parseFloat :: "jsval \<Rightarrow> jsnum" where
  "parseFloat (JNum n) = n"
| "parseFloat (JStr s) = parseFloat_string s"
| "parseFloat JUndefined = NaN"
| "parseFloat JNull = NaN"
| "parseFloat (JBool b) = NaN"

section \<open>Marker Presenter: \<^verbatim>\<open>createPopupContent\<close>\<close>

definition newline :: string where
  "newline = [CHR 0x0A]"

text \<open>The arrows U+2191 and U+2193 in UTF-8.\<close>

definition upArrow :: string where
  "upArrow = [CHR 0xE2, CHR 0x86, CHR 0x91]"

definition downArrow :: string where
  "downArrow = [CHR 0xE2, CHR 0x86, CHR 0x93]"

definition gray :: string where "gray = ''#666''"
definition green :: string where "green = ''#28a745''"
definition red :: string where "red = ''#dc3545''"

text \<open>The local variables \<^verbatim>\<open>voteScore\<close>, \<^verbatim>\<open>scoreColor\<close> and \<^verbatim>\<open>scorePrefix\<close>.\<close>

definition voteScore :: "string list \<Rightarrow> string list \<Rightarrow> int" where
  "voteScore upvotes downvotes = int (length upvotes) - int (length downvotes)"

definition scoreColor :: "int \<Rightarrow> string" where
  "scoreColor vs = (if vs > 0 then green else if vs < 0 then red else gray)"

definition scorePrefix :: "int \<Rightarrow> string" where
  "scorePrefix vs = (if vs > 0 then ''+'' else '''')"

text \<open>The vote block appended to the popup: a template literal over four lines.\<close>

definition voteBlock :: "string list \<Rightarrow> string list \<Rightarrow> string" where
  \<open>voteBlock upvotes downvotes =
     (let upvoteCount = length upvotes;
          downvoteCount = length downvotes;
          vs = voteScore upvotes downvotes
      in ''<div style="margin: 8px 0; padding: 6px 10px; background: #f8f9fa; border-radius: 4px; border-left: 3px solid ''
         @ scoreColor vs @ '';">'' @ newline
         @ ''            <strong style="color: '' @ scoreColor vs
         @ ''; font-size: 14px;">Score: '' @ scorePrefix vs @ showInt vs @ ''</strong>'' @ newline
         @ ''            <span style="color: #666; font-size: 12px; margin-left: 8px;">(''
         @ upArrow @ showNat upvoteCount @ '' '' @ downArrow @ showNat downvoteCount
         @ '')</span>'' @ newline
         @ ''        </div>'')\<close>

text \<open>
  \<^verbatim>\<open>createPopupContent\<close>. The first argument is \<^verbatim>\<open>currentUser\<close> (the signed-in user's
  uid, \<open>None\<close> for \<^verbatim>\<open>null\<close>), which the function reads from the enclosing scope.
\<close>

definition createPopupContent ::
  "string option \<Rightarrow> string \<Rightarrow> string \<Rightarrow> jsnum \<Rightarrow> jsnum \<Rightarrow> string \<Rightarrow> string \<Rightarrow> string \<Rightarrow> string
     \<Rightarrow> string list \<Rightarrow> string list \<Rightarrow> string" where
  \<open>createPopupContent currentUser locationId title lat lon notes address user userId upvotes downvotes =
     ''<b>'' @ title @ ''</b><br>''
     @ voteBlock upvotes downvotes
     @ (if address \<noteq> [] then ''<br><strong>Address:</strong><br>'' @ address else [])
     @ (if user \<noteq> [] then ''<br><strong>Added By:</strong><br>'' @ user else [])
     @ (if notes \<noteq> [] then ''<br><br><strong>Notes:</strong><br>'' @ notes else [])
     @ ''<br><br><a href="./location.html?id='' @ locationId
     @ ''" class="btn btn-primary btn-popup" style="color:white;">View Details</a>''
     @ (if currentUser = Some userId then
          newline
          @ ''                <div class="popup-actions">'' @ newline
          @ ''                    <button class="btn btn-primary btn-popup" onclick="window.editLocation('' @ [CHR 0x27]
          @ locationId @ [CHR 0x27] @ '')">Edit</button>'' @ newline
          @ ''                    <button class="btn btn-danger btn-popup" onclick="window.confirmDeleteLocation('' @ [CHR 0x27]
          @ locationId @ [CHR 0x27] @ '')">Delete</button>'' @ newline
          @ ''                </div>'' @ newline
          @ ''            ''
        else [])\<close>

section \<open>Data of the page\<close>

text \<open>A resolved user profile, as \<^verbatim>\<open>fetchUserProfile\<close> builds it.\<close>

record profile =
  displayName :: string
  email :: string

text \<open>The data of a \<^verbatim>\<open>users/{uid}\<close> document; a field may be missing.\<close>

record userData =
  ud_displayName :: "string option"
  ud_email :: "string option"

text \<open>
  A document snapshot of the \<^verbatim>\<open>locations\<close> collection: its id and the fields of
  \<^verbatim>\<open>data()\<close> the script reads. The text fields are strings, as the page writes
  them, and the votes arrays of user ids; a missing field is \<open>None\<close>. The coordinates
  go through \<^verbatim>\<open>parseFloat\<close> and may be any of the values of \<open>jsval\<close>.
\<close>

record locDoc =
  doc_id :: string
  doc_latitude :: jsval
  doc_longitude :: jsval
  doc_title :: "string option"
  doc_notes :: "string option"
  doc_address :: "string option"
  doc_userId :: "string option"
  doc_imageUrl :: "string option"
  doc_upvotes :: "string list option"
  doc_downvotes :: "string list option"

text \<open>An element of the local array \<^verbatim>\<open>locationData\<close>.\<close>

record locationEntry =
  le_locationId :: string
  le_title :: string
  le_notes :: string
  le_address :: string
  le_userId :: string
  le_lat :: jsnum
  le_lon :: jsnum

text \<open>A Leaflet marker: \<^verbatim>\<open>L.marker([lat, lon]).bindPopup(popupContent)\<close>.\<close>

record marker =
  mk_lat :: jsnum
  mk_lon :: jsnum
  mk_popup :: string

text \<open>An element of \<^verbatim>\<open>allMarkers\<close>.\<close>

record markerObj =
  locationId :: string
  title :: string
  "notes" :: string
  address :: string
  user :: string
  userId :: string
  lat :: jsnum
  lon :: jsnum
  upvotes :: "string list"
  downvotes :: "string list"
  marker :: marker

record imageFile =
  f_name :: string
  f_type :: string
  f_size :: nat

text \<open>The object \<^verbatim>\<open>submitNewLocation\<close> passes to \<^verbatim>\<open>addDoc\<close> (the timestamps are the server's).\<close>

record newLocation =
  nl_userId :: string
  nl_latitude :: jsval
  nl_longitude :: jsval
  nl_title :: string
  nl_notes :: string
  nl_address :: string

text \<open>
  The three payloads of \<^verbatim>\<open>updateDoc\<close>: the image patch of a new location, the edit
  form (with \<^verbatim>\<open>imageUrl\<close> only when it is truthy), and the removal of the image.
\<close>

datatype updateData =
    SetImageUrl string
  | EditFields string string string "string option"
  | ClearImageUrl

subsection \<open>The backend\<close>

text \<open>Every call the script makes to Firestore or to Storage.\<close>

datatype request =
    GetDocs
  | GetUser string
  | GetLocation string
  | AddDoc newLocation
  | UpdateDoc string updateData
  | DeleteDoc string
  | UploadBytes string imageFile
  | GetDownloadURL string
  | DeleteObject string

text \<open>
  The backend answers each call; \<open>None\<close> or \<open>False\<close> is a rejected promise. An answer
  may depend on the moment of the call, which is the number of calls made before it.
  \<open>date_now\<close> is \<^verbatim>\<open>Date.now()\<close>.
\<close>

record backend =
  getDocs_result :: "nat \<Rightarrow> locDoc list option"
  getUser_result :: "nat \<Rightarrow> string \<Rightarrow> userData option option"
  getLocation_result :: "nat \<Rightarrow> string \<Rightarrow> locDoc option option"
  addDoc_result :: "nat \<Rightarrow> newLocation \<Rightarrow> string option"
  updateDoc_result :: "nat \<Rightarrow> string \<Rightarrow> updateData \<Rightarrow> bool"
  deleteDoc_result :: "nat \<Rightarrow> string \<Rightarrow> bool"
  uploadBytes_result :: "nat \<Rightarrow> string \<Rightarrow> imageFile \<Rightarrow> bool"
  getDownloadURL_result :: "nat \<Rightarrow> string \<Rightarrow> string option"
  deleteObject_result :: "nat \<Rightarrow> string \<Rightarrow> bool"
  date_now :: "nat \<Rightarrow> nat"

subsection \<open>The state of the page\<close>

datatype msgType = MsgSuccess | MsgError

datatype logLevel = LogInfo | LogError

text \<open>
  The variables of the script (the module-level cache and those of the
  \<^verbatim>\<open>DOMContentLoaded\<close> closure), the parts of the document it reads and writes, and
  three logs: the messages shown to the user, the console, and the backend calls made,
  each with its outcome (\<open>True\<close> for a fulfilled promise, \<open>False\<close> for a rejected one).
  \<open>layers\<close> is the content of the marker cluster group \<^verbatim>\<open>markers\<close>.
\<close>

record app =
  userProfileCache :: "string \<rightharpoonup> profile"
  layers :: "marker list"
  allMarkers :: "markerObj list"
  creationMode :: bool
  mapClickArmed :: bool
  tempMarker :: "(jsnum \<times> jsnum) option"
  clickLat :: jsval
  clickLon :: jsval
  currentUser :: "string option"
  editingLocationId :: "string option"
  selectedNewImage :: "imageFile option"
  selectedEditImage :: "imageFile option"
  currentLocationImageUrl :: "string option"
  new_title :: string
  new_notes :: string
  new_address :: string
  new_image :: string
  new_image_preview :: string
  creation_modal :: bool
  edit_title :: string
  edit_notes :: string
  edit_address :: string
  edit_current_image :: string
  remove_image_btn :: bool
  edit_modal :: bool
  add_btn_active :: bool
  search_value :: string
  search_disabled :: bool
  loading :: bool
  messages :: "(msgType \<times> string) list"
  console :: "(logLevel \<times> string) list"
  requests :: "(request \<times> bool) list"

text \<open>\<^verbatim>\<open>!x\<close> on a variable that is \<^verbatim>\<open>null\<close> or a string.\<close>

definition truthy :: "string option \<Rightarrow> bool" where
  "truthy x = (case x of None \<Rightarrow> False | Some v \<Rightarrow> v \<noteq> [])"

subsection \<open>\<^verbatim>\<open>js/utils.js\<close>\<close>

definition showLoading :: "bool \<Rightarrow> app \<Rightarrow> app" where
  "showLoading show s = s\<lparr>loading := show\<rparr>"

definition showMessage :: "string \<Rightarrow> msgType \<Rightarrow> app \<Rightarrow> app" where
  "showMessage text type s = s\<lparr>messages := messages s @ [(type, text)]\<rparr>"

definition showSuccess :: "string \<Rightarrow> app \<Rightarrow> app" where
  "showSuccess text s = showMessage text MsgSuccess s"

definition showError :: "string \<Rightarrow> app \<Rightarrow> app" where
  "showError text s = showMessage text MsgError s"

text \<open>\<^verbatim>\<open>console.log\<close> and \<^verbatim>\<open>console.error\<close>, by their first argument.\<close>

definition consoleLog :: "string \<Rightarrow> app \<Rightarrow> app" where
  "consoleLog text s = s\<lparr>console := console s @ [(LogInfo, text)]\<rparr>"

definition consoleError :: "string \<Rightarrow> app \<Rightarrow> app" where
  "consoleError text s = s\<lparr>console := console s @ [(LogError, text)]\<rparr>"

text \<open>A call to the backend is written to the log with its outcome.\<close>

definition issue :: "request \<Rightarrow> bool \<Rightarrow> app \<Rightarrow> app" where
  "issue r fulfilled s = s\<lparr>requests := requests s @ [(r, fulfilled)]\<rparr>"

text \<open>The moment of the next call.\<close>

definition now :: "app \<Rightarrow> nat" where
  "now s = length (requests s)"

section \<open>Profile Resolver: \<^verbatim>\<open>fetchUserProfile\<close>\<close>

definition defaultProfile :: profile where
  "defaultProfile = \<lparr>displayName = ''Unknown User'', email = ''''\<rparr>"

text \<open>
  The function returns at once for an empty id, then for a cached one; otherwise it
  calls \<^verbatim>\<open>getDoc\<close>. A document that exists gives a profile built from its data; a
  document that does not exist and a rejected call both fall through to the default
  profile. Whatever was returned after a call is stored in the cache.
\<close>

definition fetchUserProfile :: "backend \<Rightarrow> string \<Rightarrow> app \<Rightarrow> profile \<times> app" where
  "fetchUserProfile be uid s =
     (if uid = [] then (defaultProfile, s)
      else (case userProfileCache s uid of
              Some cached \<Rightarrow> (cached, s)
            | None \<Rightarrow>
                (let answer = getUser_result be (now s) uid;
                     s1 = issue (GetUser uid) (answer \<noteq> None) s
                 in case answer of
                      Some (Some data) \<Rightarrow>
                        (let p = \<lparr>displayName =
                                     or_default (ud_displayName data)
                                       (or_default (ud_email data) ''Unknown User''),
                                   email = or_default (ud_email data) ''''\<rparr>
                         in (p, s1\<lparr>userProfileCache := (userProfileCache s1)(uid \<mapsto> p)\<rparr>))
                    | Some None \<Rightarrow>
                        (defaultProfile,
                         s1\<lparr>userProfileCache := (userProfileCache s1)(uid \<mapsto> defaultProfile)\<rparr>)
                    | None \<Rightarrow>
                        (let s2 = consoleError ''Error loading user:'' s1
                         in (defaultProfile,
                             s2\<lparr>userProfileCache := (userProfileCache s2)(uid \<mapsto> defaultProfile)\<rparr>)))))"

text \<open>A run of \<open>n\<close> calls with the same id, one after the other: the profiles returned and the last state.\<close>

fun resolve_repeatedly :: "backend \<Rightarrow> string \<Rightarrow> nat \<Rightarrow> app \<Rightarrow> profile list \<times> app" where
  "resolve_repeatedly be uid 0 s = ([], s)"
| "resolve_repeatedly be uid (Suc n) s =
     (let r1 = fetchUserProfile be uid s;
          r2 = resolve_repeatedly be uid n (snd r1)
      in (fst r1 # fst r2, snd r2))"

section \<open>Search Filter: \<^verbatim>\<open>filterMarkers\<close>\<close>

text \<open>
  The test in the body of the second \<^verbatim>\<open>forEach\<close>; \<open>lower\<close> is
  \<^verbatim>\<open>String.prototype.toLowerCase\<close>.
\<close>

definition markerMatches :: "(string \<Rightarrow> string) \<Rightarrow> string \<Rightarrow> markerObj \<Rightarrow> bool" where
  "markerMatches lower term markerObj =
     (let titleMatch = str_includes (lower (title markerObj)) term;
          notesMatch = str_includes (lower (notes markerObj)) term;
          addressMatch = str_includes (lower (or_str (address markerObj) '''')) term;
          userMatch = str_includes (lower (or_str (user markerObj) '''')) term
      in titleMatch \<or> notesMatch \<or> addressMatch \<or> userMatch)"

text \<open>
  \<^verbatim>\<open>markers.addLayer(markerObj.marker); visibleCount++\<close>. The cluster group is
  taken to accept the marker, so that \<open>layers\<close> lists the markers handed to it since
  it was last cleared. The map library is not among the sources; what it does with a
  marker at an infinite position is not modelled.
\<close>

definition addVisible :: "markerObj \<Rightarrow> app \<times> nat \<Rightarrow> app \<times> nat" where
  "addVisible markerObj sv =
     ((fst sv)\<lparr>layers := layers (fst sv) @ [marker markerObj]\<rparr>, snd sv + 1)"

definition filterMarkers :: "(string \<Rightarrow> string) \<Rightarrow> string \<Rightarrow> app \<Rightarrow> app" where
  \<open>filterMarkers lower searchTerm s =
     (let term = lower (trim searchTerm);
          s1 = s\<lparr>layers := []\<rparr>;
          sv = (if term = []
                then fold addVisible (allMarkers s1) (s1, 0)
                else fold (\<lambda>markerObj sv. if markerMatches lower term markerObj then addVisible markerObj sv else sv)
                       (allMarkers s1) (s1, 0))
      in consoleLog (''Showing '' @ showNat (snd sv) @ '' markers (search: "'' @ searchTerm @ ''")'') (fst sv))\<close>

section \<open>Location Store: \<^verbatim>\<open>loadLocationsFromFirestore\<close>\<close>

text \<open>\<^verbatim>\<open>Set.prototype.add\<close> on a set kept in insertion order.\<close>

definition set_add :: "string list \<Rightarrow> string \<Rightarrow> string list" where
  "set_add xs x = (if x \<in> set xs then xs else xs @ [x])"

text \<open>The body of the first loop, on the pair \<^verbatim>\<open>(locationData, uniqueUserIds)\<close>.\<close>

definition firstPassStep ::
  "locDoc \<Rightarrow> locationEntry list \<times> string list \<Rightarrow> locationEntry list \<times> string list" where
  "firstPassStep docSnap acc =
     (let locId = doc_id docSnap;
          la = parseFloat (doc_latitude docSnap);
          lo = parseFloat (doc_longitude docSnap);
          ti = or_default (doc_title docSnap) ''Untitled Location'';
          no = or_default (doc_notes docSnap) '''';
          ad = or_default (doc_address docSnap) '''';
          uid = or_default (doc_userId docSnap) ''''
      in if \<not> isNaN la \<and> \<not> isNaN lo
         then (fst acc @ [\<lparr>le_locationId = locId, le_title = ti, le_notes = no, le_address = ad,
                            le_userId = uid, le_lat = la, le_lon = lo\<rparr>],
               if uid \<noteq> [] then set_add (snd acc) uid else snd acc)
         else acc)"

definition firstPass :: "locDoc list \<Rightarrow> locationEntry list \<times> string list" where
  "firstPass docs = fold firstPassStep docs ([], [])"

text \<open>
  \<^verbatim>\<open>Promise.all(userIds.map(fetchUserProfile))\<close>: the calls are started in the order of
  the array. The ids are distinct, so each call reads and writes a cache entry of its own
  and the calls are run here one after the other.
\<close>

definition fetchAllProfiles :: "backend \<Rightarrow> string list \<Rightarrow> app \<Rightarrow> app" where
  "fetchAllProfiles be userIds s = fold (\<lambda>uid s'. snd (fetchUserProfile be uid s')) userIds s"

definition batchSize :: nat where
  "batchSize = 100"

text \<open>
  \<^verbatim>\<open>currentBatch.forEach(obj => markers.addLayer(obj.marker))\<close>, the cluster group
  again taken to accept each marker.
\<close>

definition addBatch :: "markerObj list \<Rightarrow> app \<Rightarrow> app" where
  "addBatch batch s = s\<lparr>layers := layers s @ map marker batch\<rparr>"

text \<open>\<^verbatim>\<open>locationDocData.upvotes || []\<close> for the document found by id (an array is truthy).\<close>

definition votesOf :: "(locDoc \<Rightarrow> string list option) \<Rightarrow> locDoc option \<Rightarrow> string list" where
  "votesOf field locationDoc =
     (case locationDoc of
        None \<Rightarrow> []
      | Some d \<Rightarrow> (case field d of None \<Rightarrow> [] | Some votes \<Rightarrow> votes))"

text \<open>The marker object built for one element of \<^verbatim>\<open>locationData\<close>, given the owner's name.\<close>

definition buildMarkerObj :: "string option \<Rightarrow> locDoc list \<Rightarrow> locationEntry \<Rightarrow> string \<Rightarrow> markerObj" where
  "buildMarkerObj cur docs location username =
     (let locationDoc = find (\<lambda>d. doc_id d = le_locationId location) docs;
          ups = votesOf doc_upvotes locationDoc;
          downs = votesOf doc_downvotes locationDoc;
          popupContent =
            createPopupContent cur (le_locationId location) (le_title location)
              (le_lat location) (le_lon location) (le_notes location) (le_address location)
              username (le_userId location) ups downs;
          m = \<lparr>mk_lat = le_lat location, mk_lon = le_lon location, mk_popup = popupContent\<rparr>
      in \<lparr>locationId = le_locationId location, title = le_title location,
           notes = le_notes location, address = le_address location, user = username,
           userId = le_userId location, lat = le_lat location, lon = le_lon location,
           upvotes = ups, downvotes = downs, marker = m\<rparr>)"

text \<open>The second loop, on the state and \<^verbatim>\<open>currentBatch\<close>.\<close>

fun secondPass ::
  "backend \<Rightarrow> locDoc list \<Rightarrow> locationEntry list \<Rightarrow> app \<times> markerObj list \<Rightarrow> app \<times> markerObj list" where
  "secondPass be docs [] sb = sb"
| "secondPass be docs (location # rest) sb =
     (let r = fetchUserProfile be (le_userId location) (fst sb);
          username = displayName (fst r);
          s1 = snd r;
          obj = buildMarkerObj (currentUser s1) docs location username;
          s2 = s1\<lparr>allMarkers := allMarkers s1 @ [obj]\<rparr>;
          currentBatch = snd sb @ [obj]
      in if batchSize \<le> length currentBatch
         then secondPass be docs rest (addBatch currentBatch s2, [])
         else secondPass be docs rest (s2, currentBatch))"

text \<open>
  The whole reload. \<^verbatim>\<open>markers.clearLayers()\<close> is the first statement of the
  \<^verbatim>\<open>try\<close> block, before \<^verbatim>\<open>getDocs\<close> is awaited; \<^verbatim>\<open>allMarkers = []\<close> comes after it.
  A rejected \<^verbatim>\<open>getDocs\<close> goes to the \<^verbatim>\<open>catch\<close> block.
\<close>

definition loadLocationsFromFirestore :: "backend \<Rightarrow> app \<Rightarrow> app" where
  "loadLocationsFromFirestore be s =
     (let s1 = showLoading True s;
          s2 = s1\<lparr>layers := []\<rparr>;
          answer = getDocs_result be (now s2);
          s3 = issue GetDocs (answer \<noteq> None) s2
      in case answer of
           None \<Rightarrow>
             showLoading False
               (showError ''Failed to load locations. Please refresh the page.''
                  (consoleError ''Error loading locations:'' s3))
         | Some docs \<Rightarrow>
             (let s4 = showLoading False s3;
                  s5 = s4\<lparr>allMarkers := []\<rparr>;
                  pass1 = firstPass docs;
                  s6 = fetchAllProfiles be (snd pass1) s5;
                  pass2 = secondPass be docs (fst pass1) (s6, []);
                  s7 = addBatch (snd pass2) (fst pass2)
              in consoleLog (showNat (length (fst pass1)) @ '' markers loaded from Firestore.'') s7))"

section \<open>Mutation Coordinator\<close>

subsection \<open>\<^verbatim>\<open>decodeURIComponent\<close>\<close>

definition hexVal :: "char \<Rightarrow> nat option" where
  "hexVal c =
     (let n = (of_char c :: nat)
      in if 48 \<le> n \<and> n \<le> 57 then Some (n - 48)
         else if 65 \<le> n \<and> n \<le> 70 then Some (n - 55)
         else if 97 \<le> n \<and> n \<le> 102 then Some (n - 87)
         else None)"

text \<open>A string is first cut into plain characters and escapes \<^verbatim>\<open>%XX\<close>; a \<^verbatim>\<open>%\<close> not followed by two hexadecimal digits is a \<^verbatim>\<open>URIError\<close> (\<open>None\<close>).\<close>

datatype uriToken = Lit char | Esc nat

fun uriTokens :: "string \<Rightarrow> uriToken list option" where
  "uriTokens (c # h1 # h2 # cs) =
     (if c = CHR ''%'' then
        (case hexVal h1 of
           None \<Rightarrow> None
         | Some a \<Rightarrow>
             (case hexVal h2 of
                None \<Rightarrow> None
              | Some b \<Rightarrow> map_option (Cons (Esc (16 * a + b))) (uriTokens cs)))
      else map_option (Cons (Lit c)) (uriTokens (h1 # h2 # cs)))"
| "uriTokens (c # cs) =
     (if c = CHR ''%'' then None else map_option (Cons (Lit c)) (uriTokens cs))"
| "uriTokens [] = Some []"

text \<open>The length of the UTF-8 sequence a byte of 128 or more announces (its leading one bits).\<close>

definition seqLen :: "nat \<Rightarrow> nat" where
  "seqLen b = (if b < 192 then 1 else if b < 224 then 2 else if b < 240 then 3 else if b < 248 then 4 else 5)"

definition isCont :: "uriToken \<Rightarrow> bool" where
  "isCont t = (case t of Esc b \<Rightarrow> 128 \<le> b \<and> b < 192 | Lit c \<Rightarrow> False)"

definition escByte :: "uriToken \<Rightarrow> nat" where
  "escByte t = (case t of Esc b \<Rightarrow> b | Lit c \<Rightarrow> of_char c)"

text \<open>
  A lead byte and its continuation bytes encode a code point: no overlong form, no
  surrogate, nothing above U+10FFFF.
\<close>

definition validUtf8 :: "nat list \<Rightarrow> bool" where
  "validUtf8 bs =
     (case bs of
        [b0, b1] \<Rightarrow> 194 \<le> b0
      | [b0, b1, b2] \<Rightarrow> (if b0 = 224 then 160 \<le> b1 else if b0 = 237 then b1 < 160 else True)
      | [b0, b1, b2, b3] \<Rightarrow>
          (if b0 = 240 then 144 \<le> b1 else if b0 = 244 then b1 < 144 else b0 < 244)
      | _ \<Rightarrow> False)"

fun decodeTokens :: "uriToken list \<Rightarrow> string option" where
  "decodeTokens [] = Some []"
| "decodeTokens (Lit c # ts) = map_option (Cons c) (decodeTokens ts)"
| "decodeTokens (Esc b # ts) =
     (if b < 128 then map_option (Cons (char_of b)) (decodeTokens ts)
      else if seqLen b = 1 \<or> 4 < seqLen b \<or> length ts < seqLen b - 1 then None
      else if list_all isCont (take (seqLen b - 1) ts)
              \<and> validUtf8 (b # map escByte (take (seqLen b - 1) ts))
           then map_option (append (map char_of (b # map escByte (take (seqLen b - 1) ts))))
                  (decodeTokens (drop (seqLen b - 1) ts))
           else None)"

definition decodeURIComponent :: "string \<Rightarrow> string option" where
  "decodeURIComponent s = (case uriTokens s of None \<Rightarrow> None | Some ts \<Rightarrow> decodeTokens ts)"

subsection \<open>Images in Storage\<close>

text \<open>
  The first lines of \<^verbatim>\<open>deleteImageFromStorage\<close>: the text between the first
  \<^verbatim>\<open>/o/\<close> and the next one (or the end) must be there and not empty, or the function
  returns; what precedes its first \<^verbatim>\<open>?\<close> is decoded, which may throw.
\<close>

datatype pathResult = NoPath | BadEncoding | Path string

definition storagePathOf :: "string \<Rightarrow> pathResult" where
  "storagePathOf imageUrl =
     (case js_split imageUrl ''/o/'' of
        p0 # urlParts # others \<Rightarrow>
          if urlParts = [] then NoPath
          else (case decodeURIComponent (hd (js_split urlParts ''?'')) of
                  None \<Rightarrow> BadEncoding
                | Some storagePath \<Rightarrow> Path storagePath)
      | _ \<Rightarrow> NoPath)"

text \<open>
  \<^verbatim>\<open>deleteImageFromStorage\<close> never throws: a rejected \<^verbatim>\<open>deleteObject\<close> and a
  \<^verbatim>\<open>URIError\<close> are caught and written to the console.
\<close>

definition deleteImageFromStorage :: "backend \<Rightarrow> string \<Rightarrow> app \<Rightarrow> app" where
  "deleteImageFromStorage be imageUrl s =
     (case storagePathOf imageUrl of
        NoPath \<Rightarrow> s
      | BadEncoding \<Rightarrow> consoleError ''Error deleting image from storage:'' s
      | Path storagePath \<Rightarrow>
          (let ok = deleteObject_result be (now s) storagePath;
               s1 = issue (DeleteObject storagePath) ok s
           in if ok then consoleLog ''Image deleted from storage:'' s1
              else consoleError ''Error deleting image from storage:'' s1))"

text \<open>
  \<^verbatim>\<open>uploadImageToStorage\<close> returns the download URL or throws (\<open>None\<close>): when
  \<^verbatim>\<open>currentUser\<close> is \<^verbatim>\<open>null\<close>, when \<^verbatim>\<open>uploadBytes\<close> is rejected, when
  \<^verbatim>\<open>getDownloadURL\<close> is rejected. It logs the error before it throws it again.
\<close>

definition uploadImageToStorage :: "backend \<Rightarrow> imageFile \<Rightarrow> string \<Rightarrow> app \<Rightarrow> string option \<times> app" where
  "uploadImageToStorage be file locId s =
     (case currentUser s of
        None \<Rightarrow> (None, consoleError ''Error uploading image:'' s)
      | Some uid \<Rightarrow>
          (let timestamp = date_now be (now s);
               fileExtension = last (js_split (f_name file) ''.'');
               fileName = locId @ ''_'' @ showNat timestamp @ ''.'' @ fileExtension;
               storagePath = ''locations/'' @ uid @ ''/'' @ fileName;
               uploaded = uploadBytes_result be (now s) storagePath file;
               s1 = issue (UploadBytes storagePath file) uploaded s
           in if \<not> uploaded then (None, consoleError ''Error uploading image:'' s1)
              else (let answer = getDownloadURL_result be (now s1) storagePath;
                        s2 = issue (GetDownloadURL storagePath) (answer \<noteq> None) s1
                    in case answer of
                         None \<Rightarrow> (None, consoleError ''Error uploading image:'' s2)
                       | Some downloadURL \<Rightarrow> (Some downloadURL, s2))))"

subsection \<open>Creation mode\<close>

text \<open>
  Leaving creation mode applies the search again when the search box is not empty, which
  is where \<open>lower\<close> is used.
\<close>

definition toggleCreationMode :: "(string \<Rightarrow> string) \<Rightarrow> app \<Rightarrow> app" where
  "toggleCreationMode lower s =
     (let s1 = s\<lparr>creationMode := \<not> creationMode s\<rparr>;
          s2 = s1\<lparr>add_btn_active := creationMode s1, search_disabled := creationMode s1\<rparr>
      in if creationMode s2
         then consoleLog ''Creation mode: ON - Click map to add pin'' (s2\<lparr>mapClickArmed := True\<rparr>)
         else (let s3 = s2\<lparr>mapClickArmed := False, tempMarker := None, search_disabled := False\<rparr>;
                   s4 = (if search_value s3 \<noteq> [] then filterMarkers lower (search_value s3) s3 else s3)
               in consoleLog ''Creation mode: OFF'' s4))"

subsection \<open>Create: \<^verbatim>\<open>submitNewLocation\<close>\<close>

text \<open>The inner \<^verbatim>\<open>catch (imageError)\<close> and the outer \<^verbatim>\<open>catch\<close>.\<close>

definition imageUploadFailed :: "app \<Rightarrow> app" where
  "imageUploadFailed s =
     showError ''Location created but image upload failed. You can add an image by editing the location.''
       (consoleError ''Error uploading image:'' s)"

definition addLocationFailed :: "app \<Rightarrow> app" where
  "addLocationFailed s =
     showError ''Failed to add location. Please try again.'' (consoleError ''Error adding location:'' s)"

text \<open>The inner \<^verbatim>\<open>try\<close>: the upload of the staged image and the patch of the new document.\<close>

definition attachNewImage :: "backend \<Rightarrow> imageFile \<Rightarrow> string \<Rightarrow> app \<Rightarrow> app" where
  "attachNewImage be img locId s =
     (let up = uploadImageToStorage be img locId s
      in case fst up of
           None \<Rightarrow> imageUploadFailed (snd up)
         | Some imageUrl \<Rightarrow>
             (let patched = updateDoc_result be (now (snd up)) locId (SetImageUrl imageUrl);
                  s1 = issue (UpdateDoc locId (SetImageUrl imageUrl)) patched (snd up)
              in if patched then s1 else imageUploadFailed s1))"

text \<open>The statements after the image step: the form is cleared, creation mode left, the store reloaded.\<close>

definition finishNewLocation :: "(string \<Rightarrow> string) \<Rightarrow> backend \<Rightarrow> app \<Rightarrow> app" where
  "finishNewLocation lower be s =
     (let s1 = s\<lparr>new_title := [], new_notes := [], new_address := [], new_image := [],
                  new_image_preview := [], selectedNewImage := None, creation_modal := False\<rparr>;
          s2 = s1\<lparr>tempMarker := None\<rparr>;
          s3 = toggleCreationMode lower s2;
          s4 = loadLocationsFromFirestore be s3
      in showSuccess ''Location added successfully!'' s4)"

definition submitNewLocation :: "(string \<Rightarrow> string) \<Rightarrow> backend \<Rightarrow> app \<Rightarrow> app" where
  "submitNewLocation lower be s =
     (let ti = trim (new_title s);
          no = trim (new_notes s);
          ad = trim (new_address s)
      in if ti = [] then showError ''Title is required!'' s
         else
           (let s1 = showLoading True s
            in showLoading False
                 (case currentUser s1 of
                    None \<Rightarrow> addLocationFailed s1
                  | Some uid \<Rightarrow>
                      (let locationData =
                             \<lparr>nl_userId = uid, nl_latitude = clickLat s1, nl_longitude = clickLon s1,
                              nl_title = ti, nl_notes = no, nl_address = ad\<rparr>;
                           answer = addDoc_result be (now s1) locationData;
                           s2 = issue (AddDoc locationData) (answer \<noteq> None) s1
                       in case answer of
                            None \<Rightarrow> addLocationFailed s2
                          | Some locId \<Rightarrow>
                              finishNewLocation lower be
                                (case selectedNewImage s2 of
                                   None \<Rightarrow> s2
                                 | Some img \<Rightarrow> attachNewImage be img locId s2)))))"

subsection \<open>Update: \<^verbatim>\<open>updateLocation\<close>\<close>

definition updateLocationFailed :: "app \<Rightarrow> app" where
  "updateLocationFailed s =
     showError ''Failed to update location. Please try again.'' (consoleError ''Error updating location:'' s)"

text \<open>
  The block \<^verbatim>\<open>if (selectedEditImage) { ... }\<close>: the value of \<^verbatim>\<open>imageUrl\<close> after
  it, or \<open>None\<close> when the upload threw.
\<close>

definition replaceImage :: "backend \<Rightarrow> string \<Rightarrow> app \<Rightarrow> string option option \<times> app" where
  "replaceImage be editId s =
     (case selectedEditImage s of
        None \<Rightarrow> (Some (currentLocationImageUrl s), s)
      | Some img \<Rightarrow>
          (let s1 = (case currentLocationImageUrl s of
                       None \<Rightarrow> s
                     | Some old \<Rightarrow> if old = [] then s else deleteImageFromStorage be old s);
               up = uploadImageToStorage be img editId s1
           in (case fst up of None \<Rightarrow> None | Some url \<Rightarrow> Some (Some url), snd up)))"

definition updateLocation :: "backend \<Rightarrow> app \<Rightarrow> app" where
  "updateLocation be s =
     (case editingLocationId s of
        None \<Rightarrow> s
      | Some editId \<Rightarrow>
          if editId = [] then s
          else
            (let ti = trim (edit_title s);
                 no = trim (edit_notes s);
                 ad = trim (edit_address s)
             in if ti = [] then showError ''Title is required!'' s
                else
                  (let s1 = showLoading True s;
                       img = replaceImage be editId s1
                   in showLoading False
                        (case fst img of
                           None \<Rightarrow> updateLocationFailed (snd img)
                         | Some imageUrl \<Rightarrow>
                             (let updateData =
                                    EditFields ti no ad (if truthy imageUrl then imageUrl else None);
                                  updated = updateDoc_result be (now (snd img)) editId updateData;
                                  s2 = issue (UpdateDoc editId updateData) updated (snd img)
                              in if \<not> updated then updateLocationFailed s2
                                 else
                                   (let s3 = s2\<lparr>edit_modal := False, editingLocationId := None,
                                                 selectedEditImage := None,
                                                 currentLocationImageUrl := None\<rparr>;
                                        s4 = loadLocationsFromFirestore be s3
                                    in showSuccess ''Location updated successfully!'' s4))))))"

subsection \<open>Delete: \<^verbatim>\<open>deleteLocationById\<close> and its two callers\<close>

definition deleteLocationFailed :: "app \<Rightarrow> app" where
  "deleteLocationFailed s =
     showError ''Failed to delete location. Please try again.'' (consoleError ''Error deleting location:'' s)"

definition deleteLocationById :: "backend \<Rightarrow> string \<Rightarrow> app \<Rightarrow> app" where
  "deleteLocationById be locId s =
     (let s1 = showLoading True s;
          answer = getLocation_result be (now s1) locId;
          s2 = issue (GetLocation locId) (answer \<noteq> None) s1
      in showLoading False
           (case answer of
              None \<Rightarrow> deleteLocationFailed s2
            | Some locationDoc \<Rightarrow>
                (let s3 = (case locationDoc of
                             None \<Rightarrow> s2
                           | Some d \<Rightarrow>
                               (case doc_imageUrl d of
                                  None \<Rightarrow> s2
                                | Some url \<Rightarrow>
                                    if url = [] then s2 else deleteImageFromStorage be url s2));
                     deleted = deleteDoc_result be (now s3) locId;
                     s4 = issue (DeleteDoc locId) deleted s3
                 in if \<not> deleted then deleteLocationFailed s4
                    else showSuccess ''Location deleted successfully!''
                           (loadLocationsFromFirestore be s4))))"

text \<open>The argument \<open>confirmed\<close> is the answer to the \<^verbatim>\<open>confirm\<close> dialog.\<close>

definition confirmDeleteLocation :: "backend \<Rightarrow> bool \<Rightarrow> string \<Rightarrow> app \<Rightarrow> app" where
  "confirmDeleteLocation be confirmed locId s =
     (if confirmed then deleteLocationById be locId s else s)"

definition deleteLocation :: "backend \<Rightarrow> bool \<Rightarrow> app \<Rightarrow> app" where
  "deleteLocation be confirmed s =
     (case editingLocationId s of
        None \<Rightarrow> s
      | Some editId \<Rightarrow>
          if editId = [] then s
          else if confirmed
               then (deleteLocationById be editId s)\<lparr>edit_modal := False, editingLocationId := None\<rparr>
               else s)"

subsection \<open>Remove-image-only: \<^verbatim>\<open>handleRemoveImage\<close>\<close>

definition removeImageFailed :: "app \<Rightarrow> app" where
  "removeImageFailed s =
     showError ''Failed to remove image. Please try again.'' (consoleError ''Error removing image:'' s)"

definition handleRemoveImage :: "backend \<Rightarrow> bool \<Rightarrow> app \<Rightarrow> app" where
  \<open>handleRemoveImage be confirmed s =
     (case currentLocationImageUrl s of
        None \<Rightarrow> s
      | Some url \<Rightarrow>
          (case editingLocationId s of
             None \<Rightarrow> s
           | Some editId \<Rightarrow>
               if url = [] \<or> editId = [] then s
               else if \<not> confirmed then s
               else
                 (let s1 = showLoading True s;
                      s2 = deleteImageFromStorage be url s1;
                      updated = updateDoc_result be (now s2) editId ClearImageUrl;
                      s3 = issue (UpdateDoc editId ClearImageUrl) updated s2
                  in showLoading False
                       (if \<not> updated then removeImageFailed s3
                        else showSuccess ''Image removed successfully!''
                               (s3\<lparr>currentLocationImageUrl := None,
                                   edit_current_image := ''<div class="no-image">No image</div>'',
                                   remove_image_btn := False\<rparr>)))))\<close>

section \<open>The specification's wording, for comparison with the code\<close>

text \<open>
  Marker Presenter: a positive score is green with a leading plus sign, a negative one
  red with its minus sign, zero is gray without a sign.
\<close>

definition spec_score_color :: "int \<Rightarrow> string" where
  "spec_score_color sc = (if 0 < sc then green else if sc < 0 then red else gray)"

definition spec_score_text :: "int \<Rightarrow> string" where
  "spec_score_text sc =
     (if 0 < sc then CHR ''+'' # showNat (nat sc)
      else if sc < 0 then CHR ''-'' # showNat (nat (- sc))
      else ''0'')"

text \<open>
  Search Filter: a marker is visible when the trimmed, lower-cased query is empty or is
  a substring of the lower-cased title, notes, address or owner name.
\<close>

definition spec_visible :: "(string \<Rightarrow> string) \<Rightarrow> string \<Rightarrow> markerObj \<Rightarrow> bool" where
  "spec_visible lower q m =
     (let t = trim (lower q)
      in t = [] \<or> str_includes (lower (title m)) t \<or> str_includes (lower (notes m)) t
         \<or> str_includes (lower (address m)) t \<or> str_includes (lower (user m)) t)"

section \<open>Notions for the statements\<close>

subsection \<open>The first pass of a reload\<close>

text \<open>
  The test of the first loop of the reload on a document (both coordinates parse to
  something other than \<^verbatim>\<open>NaN\<close>), the element it pushes for such a document, and
  the same fields read back from a marker object.
\<close>

definition coordsValid :: "locDoc \<Rightarrow> bool" where
  "coordsValid d = (\<not> isNaN (parseFloat (doc_latitude d)) \<and> \<not> isNaN (parseFloat (doc_longitude d)))"

definition entryOf :: "locDoc \<Rightarrow> locationEntry" where
  "entryOf d =
     \<lparr>le_locationId = doc_id d, le_title = or_default (doc_title d) ''Untitled Location'',
      le_notes = or_default (doc_notes d) '''', le_address = or_default (doc_address d) '''',
      le_userId = or_default (doc_userId d) '''',
      le_lat = parseFloat (doc_latitude d), le_lon = parseFloat (doc_longitude d)\<rparr>"

definition entry_view :: "markerObj \<Rightarrow> locationEntry" where
  "entry_view m =
     \<lparr>le_locationId = locationId m, le_title = title m, le_notes = notes m, le_address = address m,
      le_userId = userId m, le_lat = lat m, le_lon = lon m\<rparr>"

subsection \<open>The two logs\<close>

text \<open>What a function added to the call log and to the messages, between two states.\<close>

definition new_calls :: "app \<Rightarrow> app \<Rightarrow> (request \<times> bool) list" where
  "new_calls s s' = drop (length (requests s)) (requests s')"

definition new_messages :: "app \<Rightarrow> app \<Rightarrow> (msgType \<times> string) list" where
  "new_messages s s' = drop (length (messages s)) (messages s')"

text \<open>The calls that write a document of the document store.\<close>

definition is_write :: "request \<Rightarrow> bool" where
  "is_write r = (case r of AddDoc d \<Rightarrow> True | UpdateDoc i d \<Rightarrow> True | DeleteDoc i \<Rightarrow> True | _ \<Rightarrow> False)"

definition no_writes :: "(request \<times> bool) list \<Rightarrow> bool" where
  "no_writes e = list_all (\<lambda>c. \<not> is_write (fst c)) e"

text \<open>
  Mutation Coordinator: a reload follows the call \<open>c\<close> when the fetch of all locations
  occurs in the log from the first occurrence of \<open>c\<close> on; every fulfilled write of a
  log is followed by a reload.
\<close>

definition reload_follows :: "(request \<times> bool) list \<Rightarrow> request \<times> bool \<Rightarrow> bool" where
  "reload_follows calls c = (GetDocs \<in> fst ` set (dropWhile (\<lambda>x. x \<noteq> c) calls))"

definition writes_reloaded :: "(request \<times> bool) list \<Rightarrow> bool" where
  "writes_reloaded calls =
     list_all (\<lambda>c. if is_write (fst c) \<and> snd c then reload_follows calls c else True) calls"

text \<open>An upload failed when \<^verbatim>\<open>uploadBytes\<close> or \<^verbatim>\<open>getDownloadURL\<close> was rejected.\<close>

definition is_upload_failure :: "request \<times> bool \<Rightarrow> bool" where
  "is_upload_failure c =
     (\<not> snd c \<and> (case fst c of UploadBytes p f \<Rightarrow> True | GetDownloadURL p \<Rightarrow> True | _ \<Rightarrow> False))"

definition upload_failed :: "(request \<times> bool) list \<Rightarrow> bool" where
  "upload_failed calls = list_ex is_upload_failure calls"

text \<open>A log of profile fetches only.\<close>

definition user_fetches :: "(request \<times> bool) list \<Rightarrow> bool" where
  "user_fetches e = list_all (\<lambda>c. case fst c of GetUser u \<Rightarrow> True | _ \<Rightarrow> False) e"

text \<open>The messages a reload can add: none, or the one of its \<^verbatim>\<open>catch\<close> block.\<close>

definition load_msgs :: "(msgType \<times> string) list set" where
  "load_msgs = {[], [(MsgError, ''Failed to load locations. Please refresh the page.'')]}"

text \<open>The messages of the Mutation Coordinator.\<close>

definition msg_image_failed :: "msgType \<times> string" where
  "msg_image_failed =
     (MsgError, ''Location created but image upload failed. You can add an image by editing the location.'')"


definition msg_added :: "msgType \<times> string" where
  "msg_added = (MsgSuccess, ''Location added successfully!'')"

definition msg_update_failed :: "msgType \<times> string" where
  "msg_update_failed = (MsgError, ''Failed to update location. Please try again.'')"

text \<open>The storage path \<^verbatim>\<open>uploadImageToStorage\<close> builds for a call made at moment \<open>t\<close>.\<close>

definition uploadPathAt :: "backend \<Rightarrow> string \<Rightarrow> string \<Rightarrow> imageFile \<Rightarrow> nat \<Rightarrow> string" where
  "uploadPathAt be uid locId f t =
     ''locations/'' @ uid @ ''/'' @ locId @ ''_'' @ showNat (date_now be t) @ ''.''
       @ last (js_split (f_name f) ''.'')"

section \<open>Example states and backends\<close>

text \<open>The page of the signed-in user \<^verbatim>\<open>u1\<close> before anything was loaded.\<close>

definition app0 :: app where
  "app0 = \<lparr>userProfileCache = Map.empty, layers = [], allMarkers = [], creationMode = False,
     mapClickArmed = False, tempMarker = None, clickLat = JUndefined, clickLon = JUndefined,
     currentUser = Some ''u1'', editingLocationId = None, selectedNewImage = None,
     selectedEditImage = None, currentLocationImageUrl = None, new_title = [], new_notes = [],
     new_address = [], new_image = [], new_image_preview = [], creation_modal = False,
     edit_title = [], edit_notes = [], edit_address = [], edit_current_image = [],
     remove_image_btn = False, edit_modal = False, add_btn_active = False, search_value = [],
     search_disabled = False, loading = False, messages = [], console = [], requests = []\<rparr>"

text \<open>A backend that rejects every call.\<close>

definition be_down :: backend where
  "be_down = \<lparr>getDocs_result = (\<lambda>t. None), getUser_result = (\<lambda>t uid. None),
     getLocation_result = (\<lambda>t i. None), addDoc_result = (\<lambda>t d. None),
     updateDoc_result = (\<lambda>t i d. False), deleteDoc_result = (\<lambda>t i. False),
     uploadBytes_result = (\<lambda>t p f. False), getDownloadURL_result = (\<lambda>t p. None),
     deleteObject_result = (\<lambda>t p. False), date_now = (\<lambda>t. 0)\<rparr>"

text \<open>Two markers on the map, both rendered.\<close>

definition cafe :: markerObj where
  "cafe = \<lparr>locationId = ''L1'', title = ''Blue Cafe'', notes = ''good espresso'',
     address = ''1 Main St'', user = ''Ann'', userId = ''u1'', lat = Finite 10, lon = Finite 20,
     upvotes = [], downvotes = [],
     marker = \<lparr>mk_lat = Finite 10, mk_lon = Finite 20, mk_popup = ''<b>Blue Cafe</b>''\<rparr>\<rparr>"

definition park :: markerObj where
  "park = \<lparr>locationId = ''L2'', title = ''City Park'', notes = [],
     address = [], user = ''Bob'', userId = ''u2'', lat = Finite 11, lon = Finite 21,
     upvotes = [], downvotes = [],
     marker = \<lparr>mk_lat = Finite 11, mk_lon = Finite 21, mk_popup = ''<b>City Park</b>''\<rparr>\<rparr>"

definition app_two :: app where
  "app_two = app0\<lparr>allMarkers := [cafe, park], layers := [marker cafe, marker park]\<rparr>"

text \<open>
  Four documents: a complete one, one whose latitude is the number \<^verbatim>\<open>Infinity\<close>,
  one whose latitude is no number, and one with coordinates only.
\<close>

definition doc_cafe :: locDoc where
  "doc_cafe = \<lparr>doc_id = ''L1'', doc_latitude = JNum (Finite 10), doc_longitude = JNum (Finite 20),
     doc_title = Some ''Blue Cafe'', doc_notes = Some ''good espresso'', doc_address = Some ''1 Main St'',
     doc_userId = Some ''u1'', doc_imageUrl = None, doc_upvotes = Some [''u2'', ''u3''],
     doc_downvotes = None\<rparr>"

definition doc_inf :: locDoc where
  "doc_inf = \<lparr>doc_id = ''L2'', doc_latitude = JNum PosInf, doc_longitude = JNum (Finite 3),
     doc_title = Some ''Far away'', doc_notes = None, doc_address = None, doc_userId = Some ''u2'',
     doc_imageUrl = None, doc_upvotes = None, doc_downvotes = None\<rparr>"

definition doc_bad :: locDoc where
  "doc_bad = \<lparr>doc_id = ''L3'', doc_latitude = JStr ''abc'', doc_longitude = JNum (Finite 3),
     doc_title = Some ''Nowhere'', doc_notes = None, doc_address = None, doc_userId = Some ''u3'',
     doc_imageUrl = None, doc_upvotes = None, doc_downvotes = None\<rparr>"

definition doc_bare :: locDoc where
  "doc_bare = \<lparr>doc_id = ''L4'', doc_latitude = JNum (Finite 1), doc_longitude = JNum (Finite 2),
     doc_title = None, doc_notes = None, doc_address = None, doc_userId = None,
     doc_imageUrl = None, doc_upvotes = None, doc_downvotes = None\<rparr>"

definition ann :: userData where
  "ann = \<lparr>ud_displayName = Some ''Ann'', ud_email = Some ''ann@example.org''\<rparr>"

text \<open>
  A backend that fulfils every call: the collection holds three of the documents, the
  user \<^verbatim>\<open>u1\<close> has a profile and no other user has one.
\<close>

definition be_ok :: backend where
  "be_ok = \<lparr>getDocs_result = (\<lambda>t. Some [doc_cafe, doc_bad, doc_bare]),
     getUser_result = (\<lambda>t uid. if uid = ''u1'' then Some (Some ann) else Some None),
     getLocation_result = (\<lambda>t i. Some (Some doc_cafe)),
     addDoc_result = (\<lambda>t d. Some ''N1''),
     updateDoc_result = (\<lambda>t i d. True),
     deleteDoc_result = (\<lambda>t i. True),
     uploadBytes_result = (\<lambda>t p f. True),
     getDownloadURL_result = (\<lambda>t p. Some (''https://storage.example/v0/b/bucket/o/'' @ p @ ''?alt=media'')),
     deleteObject_result = (\<lambda>t p. True),
     date_now = (\<lambda>t. 1700)\<rparr>"

definition photo :: imageFile where
  "photo = \<lparr>f_name = ''photo.png'', f_type = ''image/png'', f_size = 1000\<rparr>"

text \<open>\<open>be_ok\<close> with an empty collection, and with a Storage that rejects uploads or deletions.\<close>

definition be_empty :: backend where
  "be_empty = be_ok\<lparr>getDocs_result := (\<lambda>t. Some [])\<rparr>"


definition be_no_delete :: backend where
  "be_no_delete = be_empty\<lparr>deleteObject_result := (\<lambda>t p. False)\<rparr>"


text \<open>
  The edit form open on \<^verbatim>\<open>L1\<close> with a new image staged; the location has an image
  in Storage.
\<close>

definition app_edit :: app where
  "app_edit = app0\<lparr>editingLocationId := Some ''L1'', edit_title := ''Blue Cafe'', edit_modal := True,
     currentLocationImageUrl :=
       Some ''https://storage.example/v0/b/bucket/o/locations%2Fu1%2FL1_5.png?alt=media'',
     selectedEditImage := Some photo\<rparr>"

section \<open>Verified properties\<close>

subsection \<open>Strings\<close>

lemma str_includes_sublist: "str_includes s t = sublist t s"
  by (induction s) (auto simp: sublist_Cons_right)

lemma str_includes_prefix: "prefix (pre @ t) s \<Longrightarrow> str_includes s t"
  by (auto simp: str_includes_sublist sublist_def prefix_def)

subsection \<open>Marker Presenter\<close>

lemma score_text_code: "scorePrefix sc @ showInt sc = spec_score_text sc"
  by (simp add: scorePrefix_def showInt_def spec_score_text_def showNat.simps [of 0] digitChar_def)

lemma score_color_code: "scoreColor sc = spec_score_color sc"
  by (simp add: scoreColor_def spec_score_color_def)

text \<open>
  C7. For all vote arrays, the popup built by \<^verbatim>\<open>createPopupContent\<close> shows the score
  \<open>|upvotes| - |downvotes|\<close>: the border and the score text carry the colour of the
  score's sign (green when positive, red when negative, gray when zero), the text is
  the score with a leading plus sign when positive, with its minus sign when negative
  and plain \<open>0\<close> when zero, and the counts follow as the two arrows with \<open>U\<close> and \<open>D\<close>.
\<close>

theorem popup_vote_score:
  \<open>let U = length ups; D = length downs; sc = int U - int D;
       popup = createPopupContent cu lid ti la lo no ad us uid ups downs
   in str_includes popup
        (''<strong style="color: '' @ spec_score_color sc @ ''; font-size: 14px;">Score: ''
         @ spec_score_text sc @ ''</strong>'')
    \<and> str_includes popup
        (''border-left: 3px solid '' @ spec_score_color sc @ '';'')
    \<and> str_includes popup
        (''('' @ upArrow @ showNat U @ '' '' @ downArrow @ showNat D @ '')'')\<close>
proof -
  define U where "U = length ups"
  define D where "D = length downs"
  define sc where "sc = int U - int D"
  define popup where "popup = createPopupContent cu lid ti la lo no ad us uid ups downs"
  define col where "col = spec_score_color sc"
  define st where "st = spec_score_text sc"
  define su where "su = showNat U"
  define sd where "sd = showNat D"
  have vs: "voteScore ups downs = sc"
    by (simp add: voteScore_def sc_def U_def D_def)
  have st: "scorePrefix sc @ showInt sc @ rest = st @ rest" for rest
    using score_text_code [of sc] unfolding st_def by (metis append.assoc)
  define lead where \<open>lead = ''<b>'' @ ti @ ''</b><br>''
     @ ''<div style="margin: 8px 0; padding: 6px 10px; background: #f8f9fa; border-radius: 4px; ''\<close>
  define line1 where \<open>line1 = ''border-left: 3px solid '' @ col @ '';''\<close>
  define line2 where
    \<open>line2 = ''<strong style="color: '' @ col @ ''; font-size: 14px;">Score: '' @ st @ ''</strong>''\<close>
  define line3 where \<open>line3 = ''('' @ upArrow @ su @ '' '' @ downArrow @ sd @ '')''\<close>
  define gap where
    \<open>gap = newline @ ''            <span style="color: #666; font-size: 12px; margin-left: 8px;">''\<close>
  define indent where \<open>indent = ''">'' @ newline @ ''            ''\<close>
  have \<open>\<exists>rest. popup = lead @ line1 @ indent @ line2 @ gap @ line3 @ rest\<close>
    unfolding popup_def createPopupContent_def voteBlock_def Let_def vs score_color_code
      lead_def line1_def line2_def line3_def gap_def indent_def
      col_def [symmetric] U_def [symmetric] D_def [symmetric] su_def [symmetric] sd_def [symmetric]
    by (simp add: st)
  then obtain rest where popup: \<open>popup = lead @ line1 @ indent @ line2 @ gap @ line3 @ rest\<close>
    by blast
  have "str_includes popup line1"
    by (rule str_includes_prefix [where pre = lead]) (simp add: popup)
  moreover have \<open>str_includes popup line2\<close>
    by (rule str_includes_prefix [where pre = \<open>lead @ line1 @ indent\<close>]) (simp add: popup)
  moreover have \<open>str_includes popup line3\<close>
    by (rule str_includes_prefix [where pre = \<open>lead @ line1 @ indent @ line2 @ gap\<close>])
       (simp add: popup)
  ultimately show ?thesis
    unfolding Let_def line1_def line2_def line3_def col_def st_def su_def sd_def sc_def U_def D_def
      popup_def
    by simp
qed

theorem popup_vote_score_witness:
  \<open>str_includes
      (createPopupContent None ''L1'' ''Cafe'' (Finite 1) (Finite 2) [] [] [] ''u9'' [''a'', ''b'', ''c''] [])
      ''<strong style="color: #28a745; font-size: 14px;">Score: +3</strong>''
   \<and> str_includes
      (createPopupContent None ''L1'' ''Cafe'' (Finite 1) (Finite 2) [] [] [] ''u9'' [] [''a'', ''b''])
      ''<strong style="color: #dc3545; font-size: 14px;">Score: -2</strong>''
   \<and> str_includes
      (createPopupContent None ''L1'' ''Cafe'' (Finite 1) (Finite 2) [] [] [] ''u9'' [] [])
      ''<strong style="color: #666; font-size: 14px;">Score: 0</strong>''\<close>
  using
    popup_vote_score [of "[''a'', ''b'', ''c'']" "[]" None "''L1''" "''Cafe''" "Finite 1" "Finite 2" "[]" "[]" "[]" "''u9''"]
    popup_vote_score [of "[]" "[''a'', ''b'']" None "''L1''" "''Cafe''" "Finite 1" "Finite 2" "[]" "[]" "[]" "''u9''"]
    popup_vote_score [of "[]" "[]" None "''L1''" "''Cafe''" "Finite 1" "Finite 2" "[]" "[]" "[]" "''u9''"]
  by (simp add: Let_def spec_score_color_def spec_score_text_def green_def red_def gray_def
      showNat.simps [of 3] showNat.simps [of 2] digitChar_def)

subsection \<open>Profile Resolver\<close>

lemma fetch_cached:
  "uid \<noteq> [] \<Longrightarrow> userProfileCache s uid = Some p \<Longrightarrow> fetchUserProfile be uid s = (p, s)"
  by (simp add: fetchUserProfile_def)

lemma fetch_caches:
  "uid \<noteq> [] \<Longrightarrow> fetchUserProfile be uid s = (p, s1) \<Longrightarrow> userProfileCache s1 uid = Some p"
  by (auto simp: fetchUserProfile_def Let_def issue_def consoleError_def split: option.splits)

lemma fetch_requests:
  "requests (snd (fetchUserProfile be uid s)) = requests s
   \<or> (\<exists>ok. requests (snd (fetchUserProfile be uid s)) = requests s @ [(GetUser uid, ok)])"
  by (auto simp: fetchUserProfile_def Let_def issue_def consoleError_def split: option.splits)

lemma fetch_failed:
  "uid \<noteq> [] \<Longrightarrow> userProfileCache s uid = None \<Longrightarrow> getUser_result be (now s) uid = None \<Longrightarrow>
   fst (fetchUserProfile be uid s) = defaultProfile
   \<and> userProfileCache (snd (fetchUserProfile be uid s)) uid = Some defaultProfile
   \<and> requests (snd (fetchUserProfile be uid s)) = requests s @ [(GetUser uid, False)]"
  by (simp add: fetchUserProfile_def Let_def issue_def consoleError_def)

lemma resolve_repeatedly_cached:
  "uid \<noteq> [] \<Longrightarrow> userProfileCache s uid = Some p \<Longrightarrow>
   resolve_repeatedly be uid n s = (replicate n p, s)"
  by (induction n) (simp_all add: fetch_cached Let_def)

text \<open>
  C5. Take any call \<^verbatim>\<open>fetchUserProfile(uid)\<close> with a non-empty id, from any state and
  against any backend, and let it return \<open>p\<close> and leave the state \<open>s1\<close>. The call made
  at most one backend call, a \<^verbatim>\<open>getDoc\<close> of that user; \<open>p\<close> is now in the cache
  (whether the document was found, was absent or the call was rejected); every run of
  later calls with the same id, against any backend, returns \<open>p\<close> each time and leaves
  the state, and so the log of backend calls, as it is. When the id was not cached and
  the call was rejected, \<open>p\<close> is the default profile.
\<close>

theorem profile_resolved_once:
  assumes "uid \<noteq> []" and "fetchUserProfile be uid s = (p, s1)"
  shows "(requests s1 = requests s \<or> (\<exists>ok. requests s1 = requests s @ [(GetUser uid, ok)]))
       \<and> userProfileCache s1 uid = Some p
       \<and> resolve_repeatedly be' uid n s1 = (replicate n p, s1)
       \<and> (if userProfileCache s uid = None \<and> getUser_result be (now s) uid = None
          then p = defaultProfile \<and> requests s1 = requests s @ [(GetUser uid, False)]
          else True)"
proof -
  have cached: "userProfileCache s1 uid = Some p"
    using assms by (rule fetch_caches)
  have "requests s1 = requests s \<or> (\<exists>ok. requests s1 = requests s @ [(GetUser uid, ok)])"
    using fetch_requests [of be uid s] assms(2) by simp
  moreover have "resolve_repeatedly be' uid n s1 = (replicate n p, s1)"
    using assms(1) cached by (rule resolve_repeatedly_cached)
  moreover have "p = defaultProfile \<and> requests s1 = requests s @ [(GetUser uid, False)]"
    if "userProfileCache s uid = None" "getUser_result be (now s) uid = None"
    using fetch_failed [OF assms(1) that] assms(2) by simp
  ultimately show ?thesis using cached by simp
qed

theorem profile_resolved_once_witness:
  "''u7'' \<noteq> []
   \<and> fetchUserProfile be_down ''u7'' app0 = (defaultProfile, snd (fetchUserProfile be_down ''u7'' app0))
   \<and> requests (snd (fetchUserProfile be_down ''u7'' app0)) = [(GetUser ''u7'', False)]
   \<and> userProfileCache (snd (fetchUserProfile be_down ''u7'' app0)) ''u7'' = Some defaultProfile
   \<and> resolve_repeatedly be_down ''u7'' 3 (snd (fetchUserProfile be_down ''u7'' app0))
       = ([defaultProfile, defaultProfile, defaultProfile], snd (fetchUserProfile be_down ''u7'' app0))"
proof -
  have run: "fetchUserProfile be_down ''u7'' app0
             = (defaultProfile, snd (fetchUserProfile be_down ''u7'' app0))"
    by (simp add: fetchUserProfile_def app0_def be_down_def Let_def issue_def consoleError_def now_def)
  have "''u7'' \<noteq> []" by simp
  from profile_resolved_once [OF this run, of be_down 3] run show ?thesis
    by (simp add: app0_def be_down_def now_def numeral_3_eq_3)
qed

subsection \<open>Search Filter\<close>

text \<open>
  A function that changes no byte of the white space sequences, and makes none of them
  out of another byte, commutes with stripping them.
\<close>

lemma prefix_map_fixed:
  assumes "\<And>c. c \<in> set w \<Longrightarrow> f c = c" and "\<And>c. f c \<in> set w \<Longrightarrow> f c = c"
  shows "prefix w (map f s) = prefix w s"
  using assms
proof (induction w arbitrary: s)
  case Nil
  then show ?case by simp
next
  case (Cons a w)
  show ?case
  proof (cases s)
    case Nil
    then show ?thesis by simp
  next
    case (Cons b t)
    have "prefix w (map f t) = prefix w t"
      using Cons.prems by (intro Cons.IH) simp_all
    moreover have "(a = f b) = (a = b)"
      using Cons.prems(1) [of a] Cons.prems(2) [of b] by auto
    ultimately show ?thesis
      using Cons by simp
  qed
qed

lemma stripSeqs_map:
  assumes "\<And>w c. w \<in> set ws \<Longrightarrow> c \<in> set w \<Longrightarrow> f c = c"
    and "\<And>w c. w \<in> set ws \<Longrightarrow> f c \<in> set w \<Longrightarrow> f c = c"
  shows "stripSeqs ws (map f s) = map f (stripSeqs ws s)"
  using assms
proof (induction ws s rule: stripSeqs.induct)
  case (1 ws)
  then show ?case by simp
next
  case (2 ws c cs)
  have "find (\<lambda>w. w \<noteq> [] \<and> prefix w (map f (c # cs))) ws = find (\<lambda>w. w \<noteq> [] \<and> prefix w (c # cs)) ws"
    using 2(2,3) by (intro find_cong refl) (simp only: prefix_map_fixed)
  then show ?case
    using 2 by (auto simp: drop_map split: option.splits)
qed

lemma whiteSpace_uncased:
  assumes "w \<in> set whiteSpaceSeqs" and "c \<in> set w"
  shows "(of_char c :: nat) < 65 \<or> 122 < (of_char c :: nat)"
  using assms by (auto simp: whiteSpaceSeqs_def)

lemma asciiLowerChar_range:
  "asciiLowerChar c = c \<or> (97 \<le> (of_char (asciiLowerChar c) :: nat) \<and> (of_char (asciiLowerChar c) :: nat) \<le> 122)"
  by (simp add: asciiLowerChar_def)

lemma asciiLowerChar_whiteSpace:
  assumes "w \<in> set whiteSpaceSeqs"
  shows "c \<in> set w \<Longrightarrow> asciiLowerChar c = c" and "asciiLowerChar c \<in> set w \<Longrightarrow> asciiLowerChar c = c"
proof -
  show "asciiLowerChar c = c" if "c \<in> set w"
    using whiteSpace_uncased [OF assms that] by (auto simp: asciiLowerChar_def)
  show "asciiLowerChar c = c" if "asciiLowerChar c \<in> set w"
    using whiteSpace_uncased [OF assms that] asciiLowerChar_range [of c] by auto
qed

text \<open>Trimming and lower-casing commute for the lower-casing of ASCII strings, on every string.\<close>

lemma trim_asciiLowerCase: "asciiLowerCase (trim q) = trim (asciiLowerCase q)"
proof -
  have a: "stripSeqs whiteSpaceSeqs (map asciiLowerChar s) = map asciiLowerChar (stripSeqs whiteSpaceSeqs s)" for s
    by (rule stripSeqs_map) (erule (1) asciiLowerChar_whiteSpace)+
  have b: "stripSeqs (map rev whiteSpaceSeqs) (map asciiLowerChar s)
           = map asciiLowerChar (stripSeqs (map rev whiteSpaceSeqs) s)" for s
    by (rule stripSeqs_map) (auto dest: asciiLowerChar_whiteSpace)
  show ?thesis
    by (simp add: trim_def asciiLowerCase_def rev_map a b)
qed

lemma fold_addVisible:
  "fold (\<lambda>m sv. if P m then addVisible m sv else sv) ms (s, n)
   = (s\<lparr>layers := layers s @ map marker (filter P ms)\<rparr>, n + length (filter P ms))"
  by (induction ms arbitrary: s n) (simp_all add: addVisible_def)

lemma fold_addVisible_all:
  "fold addVisible ms (s, n) = (s\<lparr>layers := layers s @ map marker ms\<rparr>, n + length ms)"
  using fold_addVisible [of "\<lambda>m. True" ms s n] by simp

text \<open>What the code renders, with the query trimmed first and lower-cased second.\<close>

lemma filterMarkers_code:
  "layers (filterMarkers lower q s)
   = map marker (filter (\<lambda>m. lower (trim q) = [] \<or> markerMatches lower (lower (trim q)) m) (allMarkers s))"
proof (cases "lower (trim q) = []")
  case True
  then show ?thesis
    by (simp add: filterMarkers_def Let_def fold_addVisible_all consoleLog_def)
next
  case False
  then show ?thesis
    by (simp add: filterMarkers_def Let_def fold_addVisible consoleLog_def)
qed

text \<open>
  The specification lower-cases the query first and trims it second. Where the two
  orders give the same string, its predicate is the code's.
\<close>

lemma markerMatches_spec:
  assumes "lower (trim q) = trim (lower q)"
  shows "spec_visible lower q = (\<lambda>m. lower (trim q) = [] \<or> markerMatches lower (lower (trim q)) m)"
  by (rule ext) (simp add: spec_visible_def markerMatches_def Let_def assms or_str_def)

lemma filterMarkers_layers:
  assumes "lower (trim q) = trim (lower q)"
  shows "layers (filterMarkers lower q s) = map marker (filter (spec_visible lower q) (allMarkers s))"
  by (simp only: filterMarkers_code markerMatches_spec [OF assms])

lemma filterMarkers_allMarkers: "allMarkers (filterMarkers lower q s) = allMarkers s"
  by (simp add: filterMarkers_def Let_def fold_addVisible_all fold_addVisible consoleLog_def)

text \<open>
  C6. Let \<open>lower\<close> be the lower-casing of strings and \<open>q\<close> a query on which trimming
  and lower-casing commute (\<^verbatim>\<open>toLowerCase\<close> neither changes, makes nor removes white
  space at the ends of a string, so this is every query). For every marker list, the
  markers \<^verbatim>\<open>filterMarkers\<close> leaves on the map are those of the in-memory list that the
  specification calls visible, in the order of the list. Filtering is idempotent: with
  the visible markers as the in-memory list the same query renders the same markers,
  and so does a second call.
\<close>

theorem filter_visible_set:
  assumes "lower (trim q) = trim (lower q)"
  shows "layers (filterMarkers lower q s) = map marker (filter (spec_visible lower q) (allMarkers s))
   \<and> set (layers (filterMarkers lower q s))
       = {marker m | m. m \<in> set (allMarkers s) \<and> spec_visible lower q m}
   \<and> layers (filterMarkers lower q (s\<lparr>allMarkers := filter (spec_visible lower q) (allMarkers s)\<rparr>))
       = layers (filterMarkers lower q s)
   \<and> layers (filterMarkers lower q (filterMarkers lower q s)) = layers (filterMarkers lower q s)"
  by (auto simp: filterMarkers_layers [OF assms] filterMarkers_allMarkers)

theorem filter_visible_set_witness:
  "asciiLowerCase (trim ([CHR 0xC2, CHR 0xA0] @ ''ESPRESSO'' @ [CHR 0xE3, CHR 0x80, CHR 0x80]))
     = trim (asciiLowerCase ([CHR 0xC2, CHR 0xA0] @ ''ESPRESSO'' @ [CHR 0xE3, CHR 0x80, CHR 0x80]))
   \<and> layers (filterMarkers asciiLowerCase ([CHR 0xC2, CHR 0xA0] @ ''ESPRESSO'' @ [CHR 0xE3, CHR 0x80, CHR 0x80]) app_two)
       = [marker cafe]
   \<and> layers (filterMarkers asciiLowerCase ([CHR 0xC2, CHR 0xA0] @ ''ESPRESSO'' @ [CHR 0xE3, CHR 0x80, CHR 0x80])
        (app_two\<lparr>allMarkers := [cafe]\<rparr>)) = [marker cafe]
   \<and> layers (filterMarkers asciiLowerCase [CHR 0xE2, CHR 0x80, CHR 0xA8, CHR 0x20, CHR 0xEF, CHR 0xBB, CHR 0xBF] app_two)
       = [marker cafe, marker park]"
proof -
  define q1 where "q1 = [CHR 0xC2, CHR 0xA0] @ ''ESPRESSO'' @ [CHR 0xE3, CHR 0x80, CHR 0x80]"
  define q2 where "q2 = [CHR 0xE2, CHR 0x80, CHR 0xA8, CHR 0x20, CHR 0xEF, CHR 0xBB, CHR 0xBF]"
  have a: "filter (spec_visible asciiLowerCase q1) [cafe, park] = [cafe]"
    unfolding q1_def by code_simp
  have b: "filter (spec_visible asciiLowerCase q2) [cafe, park] = [cafe, park]"
    unfolding q2_def by code_simp
  have c: "allMarkers app_two = [cafe, park]"
    by (simp add: app_two_def)
  have h: "asciiLowerCase (trim q) = trim (asciiLowerCase q)" for q
    by (rule trim_asciiLowerCase)
  from filter_visible_set [of asciiLowerCase q1 app_two, OF h]
    filter_visible_set [of asciiLowerCase q2 app_two, OF h] h [of q1]
  show ?thesis
    unfolding q1_def [symmetric] q2_def [symmetric] by (simp only: a b c list.map simp_thms)
qed

subsection \<open>Location Store: a rejected fetch\<close>

lemma load_rejected:
  assumes "getDocs_result be (now s) = None"
  shows "loadLocationsFromFirestore be s
         = s\<lparr>layers := [], loading := False,
             messages := messages s @ [(MsgError, ''Failed to load locations. Please refresh the page.'')],
             console := console s @ [(LogError, ''Error loading locations:'')],
             requests := requests s @ [(GetDocs, False)]\<rparr>"
  using assms
  by (simp add: loadLocationsFromFirestore_def Let_def showLoading_def showError_def showMessage_def
      consoleError_def issue_def now_def)

text \<open>
  C1, as the code has it. When \<^verbatim>\<open>getDocs\<close> is rejected, the reload shows the error
  message and leaves the in-memory marker list and the profile cache as they were; the
  markers rendered on the map are gone, since the cluster group was cleared before the
  fetch. Nothing else changes but the loading flag, the console and the call log.
\<close>

theorem reload_failure_state:
  assumes "getDocs_result be (now s) = None"
  shows "loadLocationsFromFirestore be s
         = s\<lparr>layers := [], loading := False,
             messages := messages s @ [(MsgError, ''Failed to load locations. Please refresh the page.'')],
             console := console s @ [(LogError, ''Error loading locations:'')],
             requests := requests s @ [(GetDocs, False)]\<rparr>
       \<and> allMarkers (loadLocationsFromFirestore be s) = allMarkers s
       \<and> userProfileCache (loadLocationsFromFirestore be s) = userProfileCache s
       \<and> layers (loadLocationsFromFirestore be s) = []"
  by (simp add: load_rejected [OF assms])

theorem reload_failure_state_witness:
  "getDocs_result be_down (now app_two) = None
   \<and> allMarkers (loadLocationsFromFirestore be_down app_two) = [cafe, park]
   \<and> layers (loadLocationsFromFirestore be_down app_two) = []
   \<and> messages (loadLocationsFromFirestore be_down app_two)
       = [(MsgError, ''Failed to load locations. Please refresh the page.'')]"
proof -
  have h: "getDocs_result be_down (now app_two) = None"
    by (simp add: be_down_def)
  from reload_failure_state [OF h] h show ?thesis
    by (simp add: app_two_def app0_def)
qed

text \<open>
  C1 as stated fails: with two markers rendered and a backend that rejects the fetch,
  the rendered markers after the reload are not those before it.
\<close>

theorem reload_failure_clears_layers:
  "getDocs_result be_down (now app_two) = None
   \<and> layers app_two = [marker cafe, marker park]
   \<and> layers (loadLocationsFromFirestore be_down app_two) \<noteq> layers app_two"
  by (simp add: load_rejected be_down_def app_two_def app0_def)

subsection \<open>Create with an empty title\<close>

text \<open>
  C8. When the title of the creation form is empty after trimming (it is made of white
  space and line terminators only, those outside ASCII included),
  \<^verbatim>\<open>submitNewLocation\<close> only shows the validation message: no backend call is made
  (the call log is unchanged) and the form, the staged image, the pending pin and every
  other part of the state are as before.
\<close>

theorem empty_title_rejected:
  assumes "trim (new_title s) = []"
  shows "submitNewLocation lower be s = s\<lparr>messages := messages s @ [(MsgError, ''Title is required!'')]\<rparr>
       \<and> requests (submitNewLocation lower be s) = requests s"
  using assms by (simp add: submitNewLocation_def Let_def showError_def showMessage_def)

theorem empty_title_rejected_witness:
  "trim (new_title (app0\<lparr>new_title := [CHR 0x20, CHR 0xC2, CHR 0xA0, CHR 0x09, CHR 0xE2, CHR 0x80, CHR 0xA8, CHR 0xEF, CHR 0xBB, CHR 0xBF],
                         new_notes := ''nice'', selectedNewImage := Some photo\<rparr>)) = []
   \<and> submitNewLocation asciiLowerCase be_ok
        (app0\<lparr>new_title := [CHR 0x20, CHR 0xC2, CHR 0xA0, CHR 0x09, CHR 0xE2, CHR 0x80, CHR 0xA8, CHR 0xEF, CHR 0xBB, CHR 0xBF],
              new_notes := ''nice'', selectedNewImage := Some photo\<rparr>)
      = app0\<lparr>new_title := [CHR 0x20, CHR 0xC2, CHR 0xA0, CHR 0x09, CHR 0xE2, CHR 0x80, CHR 0xA8, CHR 0xEF, CHR 0xBB, CHR 0xBF],
             new_notes := ''nice'', selectedNewImage := Some photo,
             messages := [(MsgError, ''Title is required!'')]\<rparr>
   \<and> requests (submitNewLocation asciiLowerCase be_ok
        (app0\<lparr>new_title := [CHR 0x20, CHR 0xC2, CHR 0xA0, CHR 0x09, CHR 0xE2, CHR 0x80, CHR 0xA8, CHR 0xEF, CHR 0xBB, CHR 0xBF],
              new_notes := ''nice'', selectedNewImage := Some photo\<rparr>)) = []"
proof -
  define t where "t = [CHR 0x20, CHR 0xC2, CHR 0xA0, CHR 0x09, CHR 0xE2, CHR 0x80, CHR 0xA8, CHR 0xEF, CHR 0xBB, CHR 0xBF]"
  have e: "trim t = []"
    unfolding t_def by code_simp
  have h: "trim (new_title (app0\<lparr>new_title := t, new_notes := ''nice'', selectedNewImage := Some photo\<rparr>)) = []"
    by (simp add: e)
  from empty_title_rejected [OF h, of asciiLowerCase be_ok] h show ?thesis
    unfolding t_def [symmetric] by (simp add: app0_def)
qed

subsection \<open>Location Store: a fulfilled fetch\<close>

lemma firstPassStep_eq:
  "firstPassStep d acc =
     (if coordsValid d
      then (fst acc @ [entryOf d],
            if le_userId (entryOf d) \<noteq> [] then set_add (snd acc) (le_userId (entryOf d)) else snd acc)
      else acc)"
  by (simp add: firstPassStep_def coordsValid_def entryOf_def Let_def)

lemma fold_firstPass_fst:
  "fst (fold firstPassStep docs acc) = fst acc @ map entryOf (filter coordsValid docs)"
  by (induction docs arbitrary: acc) (simp_all add: firstPassStep_eq)

lemma fold_firstPass_snd:
  "set (snd (fold firstPassStep docs acc))
   = set (snd acc) \<union> {le_userId (entryOf d) | d. d \<in> set docs \<and> coordsValid d \<and> le_userId (entryOf d) \<noteq> []}"
  by (induction docs arbitrary: acc) (auto simp: firstPassStep_eq set_add_def)

lemma fold_firstPass_distinct:
  "distinct (snd acc) \<Longrightarrow> distinct (snd (fold firstPassStep docs acc))"
  by (induction docs arbitrary: acc) (auto simp: firstPassStep_eq set_add_def)

lemma firstPass_entries: "fst (firstPass docs) = map entryOf (filter coordsValid docs)"
  by (simp add: firstPass_def fold_firstPass_fst)

lemma firstPass_owners:
  "set (snd (firstPass docs))
   = {le_userId (entryOf d) | d. d \<in> set docs \<and> coordsValid d \<and> le_userId (entryOf d) \<noteq> []}"
  by (simp add: firstPass_def fold_firstPass_snd)

lemma fetch_keeps:
  "layers (snd (fetchUserProfile be uid s)) = layers s"
  "allMarkers (snd (fetchUserProfile be uid s)) = allMarkers s"
  "currentUser (snd (fetchUserProfile be uid s)) = currentUser s"
  "messages (snd (fetchUserProfile be uid s)) = messages s"
  by (auto simp: fetchUserProfile_def Let_def issue_def consoleError_def split: option.splits)

lemma fetchAll_keeps:
  "layers (fetchAllProfiles be ids s) = layers s"
  "allMarkers (fetchAllProfiles be ids s) = allMarkers s"
  "messages (fetchAllProfiles be ids s) = messages s"
  unfolding fetchAllProfiles_def
  by (induction ids arbitrary: s) (simp_all add: fetch_keeps)

lemma entry_view_build: "entry_view (buildMarkerObj cur docs e username) = e"
  by (simp add: entry_view_def buildMarkerObj_def Let_def)

lemma secondPass_allMarkers:
  "map entry_view (allMarkers (fst (secondPass be docs ld sb)))
   = map entry_view (allMarkers (fst sb)) @ ld"
  by (induction ld arbitrary: sb)
     (simp_all add: Let_def fetch_keeps addBatch_def entry_view_build)

lemma secondPass_layers:
  "layers (fst sb) @ map marker (snd sb) = map marker (allMarkers (fst sb)) \<Longrightarrow>
   layers (fst (secondPass be docs ld sb)) @ map marker (snd (secondPass be docs ld sb))
   = map marker (allMarkers (fst (secondPass be docs ld sb)))"
  by (induction ld arbitrary: sb)
     (simp_all add: Let_def fetch_keeps addBatch_def)

lemma load_fulfilled:
  assumes "getDocs_result be (now s) = Some docs"
  shows "map entry_view (allMarkers (loadLocationsFromFirestore be s)) = map entryOf (filter coordsValid docs)"
    and "layers (loadLocationsFromFirestore be s) = map marker (allMarkers (loadLocationsFromFirestore be s))"
proof -
  define s5 where "s5 = (issue GetDocs True (s\<lparr>loading := True, layers := []\<rparr>))\<lparr>loading := False, allMarkers := []\<rparr>"
  define s6 where "s6 = fetchAllProfiles be (snd (firstPass docs)) s5"
  define r where "r = secondPass be docs (fst (firstPass docs)) (s6, [])"
  have load: "loadLocationsFromFirestore be s
      = consoleLog (showNat (length (fst (firstPass docs))) @ '' markers loaded from Firestore.'')
          (addBatch (snd r) (fst r))"
    using assms
    by (simp add: loadLocationsFromFirestore_def Let_def showLoading_def now_def r_def s6_def s5_def)
  have s6: "layers s6 = []" "allMarkers s6 = []"
    by (simp_all add: s6_def fetchAll_keeps s5_def issue_def)
  have "map entry_view (allMarkers (fst r)) = fst (firstPass docs)"
    unfolding r_def using secondPass_allMarkers [of be docs "fst (firstPass docs)" "(s6, [])"]
    by (simp add: s6)
  then show "map entry_view (allMarkers (loadLocationsFromFirestore be s)) = map entryOf (filter coordsValid docs)"
    by (simp add: load consoleLog_def addBatch_def firstPass_entries)
  have "layers (fst r) @ map marker (snd r) = map marker (allMarkers (fst r))"
    unfolding r_def by (rule secondPass_layers) (simp add: s6)
  then show "layers (loadLocationsFromFirestore be s) = map marker (allMarkers (loadLocationsFromFirestore be s))"
    by (simp add: load consoleLog_def addBatch_def)
qed


lemma fetch_ext:
  "\<exists>ext. requests (snd (fetchUserProfile be uid s)) = requests s @ ext
         \<and> (\<forall>c\<in>set ext. uid \<noteq> [] \<and> fst c = GetUser uid)"
  by (auto simp: fetchUserProfile_def Let_def issue_def consoleError_def split: option.splits)

lemma fetchAll_ext:
  "\<exists>ext. requests (fetchAllProfiles be ids s) = requests s @ ext
         \<and> (\<forall>c\<in>set ext. \<exists>uid\<in>set ids. uid \<noteq> [] \<and> fst c = GetUser uid)"
  unfolding fetchAllProfiles_def
proof (induction ids arbitrary: s)
  case Nil
  then show ?case by simp
next
  case (Cons u ids)
  obtain e1 where e1: "requests (snd (fetchUserProfile be u s)) = requests s @ e1"
      "\<forall>c\<in>set e1. u \<noteq> [] \<and> fst c = GetUser u"
    using fetch_ext [of be u s] by blast
  obtain e2 where e2:
      "requests (fold (\<lambda>uid s'. snd (fetchUserProfile be uid s')) ids (snd (fetchUserProfile be u s)))
       = requests (snd (fetchUserProfile be u s)) @ e2"
      "\<forall>c\<in>set e2. \<exists>uid\<in>set ids. uid \<noteq> [] \<and> fst c = GetUser uid"
    using Cons.IH [of "snd (fetchUserProfile be u s)"] by blast
  show ?case
    by (rule exI [of _ "e1 @ e2"]) (use e1 e2 in auto)
qed

lemma secondPass_ext:
  "\<exists>ext. requests (fst (secondPass be docs ld sb)) = requests (fst sb) @ ext
         \<and> (\<forall>c\<in>set ext. \<exists>e\<in>set ld. le_userId e \<noteq> [] \<and> fst c = GetUser (le_userId e))"
proof (induction ld arbitrary: sb)
  case Nil
  then show ?case by simp
next
  case (Cons e ld)
  define s1 where "s1 = snd (fetchUserProfile be (le_userId e) (fst sb))"
  define obj where "obj = buildMarkerObj (currentUser s1) docs e (displayName (fst (fetchUserProfile be (le_userId e) (fst sb))))"
  define sb' where "sb' = (if batchSize \<le> length (snd sb @ [obj])
      then (addBatch (snd sb @ [obj]) (s1\<lparr>allMarkers := allMarkers s1 @ [obj]\<rparr>), [])
      else (s1\<lparr>allMarkers := allMarkers s1 @ [obj]\<rparr>, snd sb @ [obj]))"
  have step: "secondPass be docs (e # ld) sb = secondPass be docs ld sb'"
    by (simp add: Let_def sb'_def obj_def s1_def)
  obtain e1 where e1: "requests s1 = requests (fst sb) @ e1"
      "\<forall>c\<in>set e1. le_userId e \<noteq> [] \<and> fst c = GetUser (le_userId e)"
    unfolding s1_def using fetch_ext [of be "le_userId e" "fst sb"] by blast
  have sb': "requests (fst sb') = requests s1"
    by (simp add: sb'_def addBatch_def)
  obtain e2 where e2: "requests (fst (secondPass be docs ld sb')) = requests (fst sb') @ e2"
      "\<forall>c\<in>set e2. \<exists>e\<in>set ld. le_userId e \<noteq> [] \<and> fst c = GetUser (le_userId e)"
    using Cons.IH [of sb'] by blast
  show ?case
    unfolding step
    by (rule exI [of _ "e1 @ e2"]) (use e1 e2 sb' in auto)
qed

lemma load_requests:
  assumes "getDocs_result be (now s) = Some docs"
  shows "\<exists>ext. requests (loadLocationsFromFirestore be s) = requests s @ (GetDocs, True) # ext
         \<and> (\<forall>c\<in>set ext. \<exists>d\<in>set docs. coordsValid d \<and> le_userId (entryOf d) \<noteq> []
                \<and> fst c = GetUser (le_userId (entryOf d)))"
proof -
  define s5 where "s5 = (issue GetDocs True (s\<lparr>loading := True, layers := []\<rparr>))\<lparr>loading := False, allMarkers := []\<rparr>"
  define s6 where "s6 = fetchAllProfiles be (snd (firstPass docs)) s5"
  define r where "r = secondPass be docs (fst (firstPass docs)) (s6, [])"
  have load: "loadLocationsFromFirestore be s
      = consoleLog (showNat (length (fst (firstPass docs))) @ '' markers loaded from Firestore.'')
          (addBatch (snd r) (fst r))"
    using assms
    by (simp add: loadLocationsFromFirestore_def Let_def showLoading_def now_def r_def s6_def s5_def)
  have s5: "requests s5 = requests s @ [(GetDocs, True)]"
    by (simp add: s5_def issue_def)
  obtain e1 where e1: "requests s6 = requests s5 @ e1"
      "\<forall>c\<in>set e1. \<exists>uid\<in>set (snd (firstPass docs)). uid \<noteq> [] \<and> fst c = GetUser uid"
    unfolding s6_def using fetchAll_ext [of be "snd (firstPass docs)" s5] by blast
  have "\<exists>ext. requests (fst r) = requests s6 @ ext
      \<and> (\<forall>c\<in>set ext. \<exists>e\<in>set (fst (firstPass docs)). le_userId e \<noteq> [] \<and> fst c = GetUser (le_userId e))"
    unfolding r_def using secondPass_ext [of be docs "fst (firstPass docs)" "(s6, [])"]
    by (simp only: fst_conv)
  then obtain e2 where e2': "requests (fst r) = requests s6 @ e2
      \<and> (\<forall>c\<in>set e2. \<exists>e\<in>set (fst (firstPass docs)). le_userId e \<noteq> [] \<and> fst c = GetUser (le_userId e))" ..
  note e2 = conjunct1 [OF e2'] conjunct2 [OF e2']
  have a: "\<exists>d\<in>set docs. coordsValid d \<and> le_userId (entryOf d) \<noteq> [] \<and> fst c = GetUser (le_userId (entryOf d))"
    if "c \<in> set e1" for c
  proof -
    from e1(2) that have "\<exists>uid\<in>set (snd (firstPass docs)). uid \<noteq> [] \<and> fst c = GetUser uid"
      by (rule bspec)
    then obtain uid where uid: "uid \<in> set (snd (firstPass docs))" "fst c = GetUser uid"
      by (elim bexE conjE)
    from uid(1) have "\<exists>d. uid = le_userId (entryOf d) \<and> d \<in> set docs \<and> coordsValid d \<and> le_userId (entryOf d) \<noteq> []"
      by (simp only: firstPass_owners mem_Collect_eq)
    then obtain d where d: "uid = le_userId (entryOf d)" "d \<in> set docs" "coordsValid d"
        "le_userId (entryOf d) \<noteq> []"
      by (elim exE conjE)
    show ?thesis
      by (rule bexI [OF _ d(2)]) (use d(3,4) uid(2) in \<open>simp add: d(1)\<close>)
  qed
  have b: "\<exists>d\<in>set docs. coordsValid d \<and> le_userId (entryOf d) \<noteq> [] \<and> fst c = GetUser (le_userId (entryOf d))"
    if "c \<in> set e2" for c
  proof -
    from e2(2) that have "\<exists>e\<in>set (fst (firstPass docs)). le_userId e \<noteq> [] \<and> fst c = GetUser (le_userId e)"
      by (rule bspec)
    then obtain e where e: "e \<in> set (fst (firstPass docs))" "le_userId e \<noteq> []"
        "fst c = GetUser (le_userId e)"
      by (elim bexE conjE)
    from e(1) have "e \<in> entryOf ` {d \<in> set docs. coordsValid d}"
      by (simp add: firstPass_entries)
    then obtain d where d: "e = entryOf d" "d \<in> set docs" "coordsValid d"
      by (elim imageE) simp
    show ?thesis
      by (rule bexI [OF _ d(2)]) (use d(3) e(2,3) in \<open>simp add: d(1)\<close>)
  qed
  have all: "\<forall>c\<in>set (e1 @ e2). \<exists>d\<in>set docs. coordsValid d \<and> le_userId (entryOf d) \<noteq> []
                \<and> fst c = GetUser (le_userId (entryOf d))"
  proof
    fix c
    assume "c \<in> set (e1 @ e2)"
    then consider "c \<in> set e1" | "c \<in> set e2"
      by auto
    then show "\<exists>d\<in>set docs. coordsValid d \<and> le_userId (entryOf d) \<noteq> []
                \<and> fst c = GetUser (le_userId (entryOf d))"
    proof cases
      case 1
      then show ?thesis by (rule a)
    next
      case 2
      then show ?thesis by (rule b)
    qed
  qed
  have req: "requests (loadLocationsFromFirestore be s) = requests s @ (GetDocs, True) # (e1 @ e2)"
    by (simp add: load consoleLog_def addBatch_def e2(1) e1(1) s5)
  show ?thesis
    by (rule exI [of _ "e1 @ e2"]) (rule conjI [OF req all])
qed


text \<open>
  C4 does not hold of the code. The first loop of the reload keeps a document when
  neither coordinate parses to \<^verbatim>\<open>NaN\<close>, and an infinite number is not \<^verbatim>\<open>NaN\<close>. So
  a fetched document with a coordinate that parses to \<^verbatim>\<open>Infinity\<close> or
  \<^verbatim>\<open>-Infinity\<close>, the other coordinate not being \<^verbatim>\<open>NaN\<close>, is pushed to
  \<^verbatim>\<open>locationData\<close>, the list the second loop builds the markers from, and its
  non-empty owner id is added to \<^verbatim>\<open>uniqueUserIds\<close>, the ids given to the
  owner-resolution pass.
\<close>

theorem nonfinite_coordinate_kept:
  assumes "d \<in> set docs"
    and "\<not> isNaN (parseFloat (doc_latitude d))" and "\<not> isNaN (parseFloat (doc_longitude d))"
    and "\<not> isFinite (parseFloat (doc_latitude d)) \<or> \<not> isFinite (parseFloat (doc_longitude d))"
    and "doc_userId d = Some u" and "u \<noteq> []"
  shows "entryOf d \<in> set (fst (firstPass docs)) \<and> u \<in> set (snd (firstPass docs))"
proof -
  have v: "coordsValid d"
    using assms(2,3) by (simp add: coordsValid_def)
  have o: "le_userId (entryOf d) = u"
    using assms(5,6) by (simp add: entryOf_def or_default_def or_str_def)
  have "entryOf d \<in> set (fst (firstPass docs))"
    using assms(1) v by (simp add: firstPass_entries)
  moreover have "u \<in> set (snd (firstPass docs))"
    unfolding firstPass_owners using assms(1,6) v o by blast
  ultimately show ?thesis by simp
qed

theorem nonfinite_coordinate_kept_witness:
  "doc_inf \<in> set [doc_cafe, doc_inf, doc_bad]
   \<and> parseFloat (doc_latitude doc_inf) = PosInf \<and> \<not> isFinite (parseFloat (doc_latitude doc_inf))
   \<and> parseFloat (doc_longitude doc_inf) = Finite 3
   \<and> doc_userId doc_inf = Some ''u2''
   \<and> entryOf doc_inf \<in> set (fst (firstPass [doc_cafe, doc_inf, doc_bad]))
   \<and> ''u2'' \<in> set (snd (firstPass [doc_cafe, doc_inf, doc_bad]))
   \<and> map le_locationId (fst (firstPass [doc_cafe, doc_inf, doc_bad])) = [''L1'', ''L2'']
   \<and> snd (firstPass [doc_cafe, doc_inf, doc_bad]) = [''u1'', ''u2'']
   \<and> requests (fetchAllProfiles be_ok (snd (firstPass [doc_cafe, doc_inf, doc_bad])) app0)
       = [(GetUser ''u1'', True), (GetUser ''u2'', True)]"
proof -
  have i: "doc_inf \<in> set [doc_cafe, doc_inf, doc_bad]"
    by simp
  have c: "parseFloat (doc_latitude doc_inf) = PosInf" "parseFloat (doc_longitude doc_inf) = Finite 3"
      "doc_userId doc_inf = Some ''u2''"
    by (simp_all add: doc_inf_def)
  have n: "\<not> isNaN (parseFloat (doc_latitude doc_inf))" "\<not> isNaN (parseFloat (doc_longitude doc_inf))"
      "\<not> isFinite (parseFloat (doc_latitude doc_inf)) \<or> \<not> isFinite (parseFloat (doc_longitude doc_inf))"
      "''u2'' \<noteq> []"
    by (simp_all add: c isNaN_def isFinite_def)
  have f: "\<not> isFinite (parseFloat (doc_latitude doc_inf))"
    by (simp add: c isFinite_def)
  have e: "map le_locationId (fst (firstPass [doc_cafe, doc_inf, doc_bad])) = [''L1'', ''L2'']"
      "snd (firstPass [doc_cafe, doc_inf, doc_bad]) = [''u1'', ''u2'']"
    by code_simp+
  have r: "requests (fetchAllProfiles be_ok [''u1'', ''u2''] app0) = [(GetUser ''u1'', True), (GetUser ''u2'', True)]"
    by code_simp
  from nonfinite_coordinate_kept [OF i n(1,2,3) c(3) n(4)] i c f e r show ?thesis
    by (simp only: simp_thms)
qed

text \<open>
  C10. After a reload whose fetch returned \<open>docs\<close>, a document with valid
  coordinates whose title is missing or empty has a marker in the in-memory list, which
  is rendered, titled \<^verbatim>\<open>Untitled Location\<close>; missing notes, address and owner id
  are the empty string there.
\<close>

theorem untitled_location_included:
  assumes "getDocs_result be (now s) = Some docs" and "d \<in> set docs" and "coordsValid d"
    and "doc_title d = None \<or> doc_title d = Some []"
  shows "\<exists>m\<in>set (allMarkers (loadLocationsFromFirestore be s)).
           locationId m = doc_id d \<and> title m = ''Untitled Location''
           \<and> notes m = (case doc_notes d of None \<Rightarrow> [] | Some n \<Rightarrow> n)
           \<and> address m = (case doc_address d of None \<Rightarrow> [] | Some a \<Rightarrow> a)
           \<and> userId m = (case doc_userId d of None \<Rightarrow> [] | Some u \<Rightarrow> u)
           \<and> lat m = parseFloat (doc_latitude d) \<and> lon m = parseFloat (doc_longitude d)
           \<and> marker m \<in> set (layers (loadLocationsFromFirestore be s))"
proof -
  have "entryOf d \<in> set (map entryOf (filter coordsValid docs))"
    using assms(2,3) by simp
  then have "entryOf d \<in> entry_view ` set (allMarkers (loadLocationsFromFirestore be s))"
    by (simp only: load_fulfilled(1) [OF assms(1), symmetric] set_map)
  then obtain m where m: "m \<in> set (allMarkers (loadLocationsFromFirestore be s))" "entry_view m = entryOf d"
    by (elim imageE) simp
  have ti: "or_default (doc_title d) ''Untitled Location'' = ''Untitled Location''"
    using assms(4) by (auto simp: or_default_def or_str_def)
  have dflt: "or_default x [] = (case x of None \<Rightarrow> [] | Some v \<Rightarrow> v)" for x
    by (simp add: or_default_def or_str_def split: option.splits)
  have fields: "locationId m = doc_id d" "title m = ''Untitled Location''"
      "notes m = (case doc_notes d of None \<Rightarrow> [] | Some n \<Rightarrow> n)"
      "address m = (case doc_address d of None \<Rightarrow> [] | Some a \<Rightarrow> a)"
      "userId m = (case doc_userId d of None \<Rightarrow> [] | Some u \<Rightarrow> u)"
      "lat m = parseFloat (doc_latitude d)" "lon m = parseFloat (doc_longitude d)"
    using m(2) by (simp_all add: entry_view_def entryOf_def ti dflt)
  have "marker m \<in> set (layers (loadLocationsFromFirestore be s))"
    using m(1) by (simp add: load_fulfilled(2) [OF assms(1)])
  with fields m(1) show ?thesis
    by (intro bexI [of _ m]) simp_all
qed

theorem untitled_location_included_witness:
  "getDocs_result be_ok (now app0) = Some [doc_cafe, doc_bad, doc_bare]
   \<and> doc_bare \<in> set [doc_cafe, doc_bad, doc_bare]
   \<and> coordsValid doc_bare
   \<and> doc_title doc_bare = None
   \<and> (\<exists>m\<in>set (allMarkers (loadLocationsFromFirestore be_ok app0)).
         locationId m = ''L4'' \<and> title m = ''Untitled Location'' \<and> notes m = [] \<and> address m = []
         \<and> userId m = [] \<and> lat m = Finite 1 \<and> lon m = Finite 2
         \<and> marker m \<in> set (layers (loadLocationsFromFirestore be_ok app0)))"
proof -
  have h: "getDocs_result be_ok (now app0) = Some [doc_cafe, doc_bad, doc_bare]"
    by (simp add: be_ok_def)
  have i: "doc_bare \<in> set [doc_cafe, doc_bad, doc_bare]"
    by simp
  have v: "coordsValid doc_bare"
    by (simp add: coordsValid_def doc_bare_def isNaN_def)
  have t: "doc_title doc_bare = None \<or> doc_title doc_bare = Some []"
    by (simp add: doc_bare_def)
  from untitled_location_included [OF h i v t] h i v show ?thesis
    by (simp add: doc_bare_def)
qed

subsection \<open>Mutation Coordinator\<close>

lemma no_writes_simps [simp]:
  "no_writes []" "no_writes (c # e) = (\<not> is_write (fst c) \<and> no_writes e)"
  "no_writes (e @ e') = (no_writes e \<and> no_writes e')"
  by (simp_all add: no_writes_def)

lemma is_write_simps [simp]:
  "is_write (AddDoc d)" "is_write (UpdateDoc i u)" "is_write (DeleteDoc i)"
  "\<not> is_write GetDocs" "\<not> is_write (GetUser uid)" "\<not> is_write (GetLocation i)"
  "\<not> is_write (UploadBytes p f)" "\<not> is_write (GetDownloadURL p)" "\<not> is_write (DeleteObject p)"
  by (simp_all add: is_write_def)

lemma writes_reloaded_none:
  assumes "list_all (\<lambda>c. \<not> (is_write (fst c) \<and> snd c)) e"
  shows "writes_reloaded e"
  using assms unfolding writes_reloaded_def list_all_iff by fastforce

lemma reload_follows_pre:
  assumes "c \<in> set pre"
  shows "reload_follows (pre @ (GetDocs, ok) # ext) c"
proof -
  have "dropWhile (\<lambda>x. x \<noteq> c) (pre @ (GetDocs, ok) # ext)
        = dropWhile (\<lambda>x. x \<noteq> c) pre @ (GetDocs, ok) # ext"
    using assms by (intro dropWhile_append1) auto
  then show ?thesis
    by (simp add: reload_follows_def image_Un)
qed

lemma writes_reloaded_tail:
  assumes "no_writes ext"
  shows "writes_reloaded (pre @ (GetDocs, ok) # ext)"
  unfolding writes_reloaded_def list_all_iff
proof
  fix c
  assume c: "c \<in> set (pre @ (GetDocs, ok) # ext)"
  show "if is_write (fst c) \<and> snd c then reload_follows (pre @ (GetDocs, ok) # ext) c else True"
  proof (cases "c \<in> set pre")
    case True
    then show ?thesis by (simp add: reload_follows_pre)
  next
    case False
    with c have "c = (GetDocs, ok) \<or> c \<in> set ext" by auto
    then have "\<not> is_write (fst c)"
      using assms by (auto simp: no_writes_def list_all_iff)
    then show ?thesis by simp
  qed
qed

lemma new_calls_append [simp]: "requests s' = requests s @ e \<Longrightarrow> new_calls s s' = e"
  by (simp add: new_calls_def)

lemma new_messages_append [simp]: "messages s' = messages s @ e \<Longrightarrow> new_messages s s' = e"
  by (simp add: new_messages_def)

lemma secondPass_messages: "messages (fst (secondPass be docs ld sb)) = messages (fst sb)"
  by (induction ld arbitrary: sb) (simp_all add: Let_def fetch_keeps addBatch_def)

lemma load_messages:
  "\<exists>e\<in>load_msgs. messages (loadLocationsFromFirestore be s) = messages s @ e"
proof (cases "getDocs_result be (now s)")
  case None
  then show ?thesis
    by (simp add: load_rejected load_msgs_def)
next
  case (Some docs)
  then have "messages (loadLocationsFromFirestore be s) = messages s"
    by (simp add: loadLocationsFromFirestore_def Let_def showLoading_def now_def consoleLog_def
        addBatch_def secondPass_messages fetchAll_keeps issue_def)
  then show ?thesis
    by (simp add: load_msgs_def)
qed

lemma filterMarkers_keeps:
  "requests (filterMarkers lower q s) = requests s" "messages (filterMarkers lower q s) = messages s"
  by (simp_all add: filterMarkers_def Let_def fold_addVisible_all fold_addVisible consoleLog_def)

lemma toggle_keeps:
  "requests (toggleCreationMode lower s) = requests s" "messages (toggleCreationMode lower s) = messages s"
  by (simp_all add: toggleCreationMode_def Let_def consoleLog_def filterMarkers_keeps)

lemma storage_delete_calls:
  "requests (deleteImageFromStorage be url s)
   = requests s @ (case storagePathOf url of
                     Path p \<Rightarrow> [(DeleteObject p, deleteObject_result be (now s) p)]
                   | _ \<Rightarrow> [])"
  "messages (deleteImageFromStorage be url s) = messages s"
  "currentUser (deleteImageFromStorage be url s) = currentUser s"
  by (simp_all add: deleteImageFromStorage_def Let_def issue_def consoleLog_def consoleError_def
      split: pathResult.splits)

lemma upload_failed_simps [simp]:
  "\<not> upload_failed []" "upload_failed (c # e) = (is_upload_failure c \<or> upload_failed e)"
  "upload_failed (e @ e') = (upload_failed e \<or> upload_failed e')"
  by (simp_all add: upload_failed_def)

lemma is_upload_failure_simps [simp]:
  "is_upload_failure (UploadBytes p f, ok) = (\<not> ok)"
  "is_upload_failure (GetDownloadURL p, ok) = (\<not> ok)"
  "\<not> is_upload_failure (AddDoc d, ok)" "\<not> is_upload_failure (UpdateDoc i u, ok)"
  "\<not> is_upload_failure (DeleteDoc i, ok)" "\<not> is_upload_failure (GetDocs, ok)"
  "\<not> is_upload_failure (GetUser uid, ok)" "\<not> is_upload_failure (GetLocation i, ok)"
  "\<not> is_upload_failure (DeleteObject p, ok)"
  by (simp_all add: is_upload_failure_def)

lemma user_fetches_plain:
  assumes "user_fetches e"
  shows "no_writes e" and "\<not> upload_failed e"
  using assms
  by (induction e)
     (auto simp: user_fetches_def is_upload_failure_def is_write_def split: request.splits)

lemma load_calls:
  "\<exists>ok ext. requests (loadLocationsFromFirestore be s) = requests s @ (GetDocs, ok) # ext \<and> user_fetches ext"
proof (cases "getDocs_result be (now s)")
  case None
  then show ?thesis
    by (intro exI [of _ False] exI [of _ "[]"]) (simp add: load_rejected user_fetches_def)
next
  case (Some docs)
  from load_requests [OF Some] obtain ext where
    ext: "requests (loadLocationsFromFirestore be s) = requests s @ (GetDocs, True) # ext
      \<and> (\<forall>c\<in>set ext. \<exists>d\<in>set docs. coordsValid d \<and> le_userId (entryOf d) \<noteq> []
            \<and> fst c = GetUser (le_userId (entryOf d)))" ..
  have "user_fetches ext"
    unfolding user_fetches_def list_all_iff
  proof
    fix c assume "c \<in> set ext"
    with ext obtain d where "fst c = GetUser (le_userId (entryOf d))"
      by (elim conjE) (drule (1) bspec, elim bexE conjE)
    then show "case fst c of GetUser u \<Rightarrow> True | _ \<Rightarrow> False" by simp
  qed
  with ext show ?thesis
    by (intro exI [of _ True] exI [of _ ext]) simp
qed

lemma upload_effect:
  "\<exists>e. requests (snd (uploadImageToStorage be f i s)) = requests s @ e \<and> no_writes e
       \<and> (if fst (uploadImageToStorage be f i s) = None then currentUser s = None \<or> upload_failed e
          else \<not> upload_failed e)"
  by (cases "currentUser s")
     (auto simp: uploadImageToStorage_def Let_def issue_def consoleError_def split: option.splits)

lemma upload_keeps:
  "messages (snd (uploadImageToStorage be f i s)) = messages s"
  "currentUser (snd (uploadImageToStorage be f i s)) = currentUser s"
  by (auto simp: uploadImageToStorage_def Let_def issue_def consoleError_def split: option.splits)

lemma attach_effect:
  "\<exists>e w. requests (attachNewImage be img i s) = requests s @ e
         \<and> messages (attachNewImage be img i s) = messages s @ w
         \<and> (w = [] \<or> w = [msg_image_failed])
         \<and> (if upload_failed e then w = [msg_image_failed] else True)"
proof -
  define up where "up = uploadImageToStorage be img i s"
  obtain e where e: "requests (snd up) = requests s @ e" "no_writes e"
      "if fst up = None then currentUser s = None \<or> upload_failed e else \<not> upload_failed e"
    unfolding up_def using upload_effect [of be img i s] by (elim exE conjE)
  have m: "messages (snd up) = messages s"
    by (simp add: up_def upload_keeps)
  show ?thesis
  proof (cases "fst up")
    case None
    then have "requests (attachNewImage be img i s) = requests s @ e"
        "messages (attachNewImage be img i s) = messages s @ [msg_image_failed]"
      by (simp_all add: attachNewImage_def Let_def up_def [symmetric] imageUploadFailed_def
          showError_def showMessage_def consoleError_def e m msg_image_failed_def)
    then show ?thesis
      by (intro exI [of _ e] exI [of _ "[msg_image_failed]"]) simp
  next
    case (Some url)
    define ok where "ok = updateDoc_result be (now (snd up)) i (SetImageUrl url)"
    have nf: "\<not> upload_failed e"
      using e(3) Some by simp
    have r: "requests (attachNewImage be img i s) = requests s @ (e @ [(UpdateDoc i (SetImageUrl url), ok)])"
      using Some
      by (simp add: attachNewImage_def Let_def up_def [symmetric] imageUploadFailed_def issue_def
          showError_def showMessage_def consoleError_def e ok_def)
    have "messages (attachNewImage be img i s) = messages s @ (if ok then [] else [msg_image_failed])"
      using Some
      by (simp add: attachNewImage_def Let_def up_def [symmetric] imageUploadFailed_def issue_def
          showError_def showMessage_def consoleError_def m ok_def msg_image_failed_def)
    with r nf show ?thesis
      by (intro exI [of _ "e @ [(UpdateDoc i (SetImageUrl url), ok)]"]
          exI [of _ "if ok then [] else [msg_image_failed]"]) simp
  qed
qed

lemma finish_effect:
  "\<exists>ok ext lm. requests (finishNewLocation lower be s) = requests s @ (GetDocs, ok) # ext
         \<and> user_fetches ext
         \<and> messages (finishNewLocation lower be s) = messages s @ lm @ [msg_added]
         \<and> lm \<in> load_msgs"
proof -
  define s3 where "s3 = toggleCreationMode lower (s\<lparr>new_title := [], new_notes := [], new_address := [],
      new_image := [], new_image_preview := [], selectedNewImage := None, creation_modal := False,
      tempMarker := None\<rparr>)"
  have fin: "finishNewLocation lower be s = showSuccess ''Location added successfully!'' (loadLocationsFromFirestore be s3)"
    by (simp add: finishNewLocation_def Let_def s3_def)
  have s3: "requests s3 = requests s" "messages s3 = messages s"
    by (simp_all add: s3_def toggle_keeps)
  obtain ok ext where c: "requests (loadLocationsFromFirestore be s3) = requests s3 @ (GetDocs, ok) # ext"
      "user_fetches ext"
    using load_calls [of be s3] by (elim exE conjE)
  obtain lm where lm: "lm \<in> load_msgs" "messages (loadLocationsFromFirestore be s3) = messages s3 @ lm"
    using load_messages [of be s3] by (elim bexE)
  show ?thesis
    by (intro exI [of _ ok] exI [of _ ext] exI [of _ lm])
       (simp add: fin showSuccess_def showMessage_def c lm s3 msg_added_def)
qed

text \<open>The three ways \<^verbatim>\<open>submitNewLocation\<close> can go, by what it adds to the two logs.\<close>

lemma submit_cases:
  "(new_calls s (submitNewLocation lower be s) = [])
   \<or> (\<exists>d. new_calls s (submitNewLocation lower be s) = [(AddDoc d, False)])
   \<or> (\<exists>d e ok ext w lm.
         new_calls s (submitNewLocation lower be s) = (AddDoc d, True) # e @ (GetDocs, ok) # ext
         \<and> user_fetches ext
         \<and> new_messages s (submitNewLocation lower be s) = w @ lm @ [msg_added]
         \<and> lm \<in> load_msgs
         \<and> (w = [] \<or> w = [msg_image_failed])
         \<and> (if upload_failed e then w = [msg_image_failed] else True))"
proof (cases "trim (new_title s) = [] \<or> currentUser s = None")
  case True
  then have "requests (submitNewLocation lower be s) = requests s @ []"
    by (auto simp: submitNewLocation_def Let_def showError_def showMessage_def showLoading_def
        addLocationFailed_def consoleError_def)
  then show ?thesis
    by (simp only: new_calls_append) simp
next
  case False
  then obtain uid where uid: "currentUser s = Some uid" and ti: "trim (new_title s) \<noteq> []"
    by auto
  define d where "d = \<lparr>nl_userId = uid, nl_latitude = clickLat s, nl_longitude = clickLon s,
      nl_title = trim (new_title s), nl_notes = trim (new_notes s), nl_address = trim (new_address s)\<rparr>"
  show ?thesis
  proof (cases "addDoc_result be (now s) d")
    case None
    then have "requests (submitNewLocation lower be s) = requests s @ [(AddDoc d, False)]"
      using uid ti
      by (simp add: submitNewLocation_def Let_def showError_def showMessage_def showLoading_def
          addLocationFailed_def consoleError_def issue_def now_def d_def)
    then have "new_calls s (submitNewLocation lower be s) = [(AddDoc d, False)]"
      by (rule new_calls_append)
    then show ?thesis
      by (intro disjI2 disjI1 exI [of _ d])
  next
    case (Some locId)
    define s2 where "s2 = issue (AddDoc d) True (showLoading True s)"
    define s3 where "s3 = (case selectedNewImage s2 of None \<Rightarrow> s2 | Some img \<Rightarrow> attachNewImage be img locId s2)"
    have sub: "submitNewLocation lower be s = showLoading False (finishNewLocation lower be s3)"
      using uid ti Some
      by (simp add: submitNewLocation_def Let_def showLoading_def now_def d_def [symmetric] s3_def s2_def
          split: option.splits)
    have s2: "requests s2 = requests s @ [(AddDoc d, True)]" "messages s2 = messages s"
      by (simp_all add: s2_def issue_def showLoading_def)
    have "\<exists>e w. requests s3 = requests s2 @ e \<and> messages s3 = messages s2 @ w
         \<and> (w = [] \<or> w = [msg_image_failed])
         \<and> (if upload_failed e then w = [msg_image_failed] else True)"
    proof (cases "selectedNewImage s2")
      case None
      then show ?thesis
        by (intro exI [of _ "[]"]) (simp add: s3_def)
    next
      case (Some img)
      then show ?thesis
        using attach_effect [of be img locId s2] by (simp add: s3_def)
    qed
    then obtain e w where s3: "requests s3 = requests s2 @ e" "messages s3 = messages s2 @ w"
        "w = [] \<or> w = [msg_image_failed]" "if upload_failed e then w = [msg_image_failed] else True"
      by (elim exE conjE)
    obtain ok ext lm where f: "requests (finishNewLocation lower be s3) = requests s3 @ (GetDocs, ok) # ext"
        "user_fetches ext" "messages (finishNewLocation lower be s3) = messages s3 @ lm @ [msg_added]"
        "lm \<in> load_msgs"
      using finish_effect [of lower be s3] by (elim exE conjE)
    have "requests (submitNewLocation lower be s) = requests s @ ((AddDoc d, True) # e @ (GetDocs, ok) # ext)"
      by (simp add: sub showLoading_def f s3 s2)
    then have c: "new_calls s (submitNewLocation lower be s) = (AddDoc d, True) # e @ (GetDocs, ok) # ext"
      by (rule new_calls_append)
    have "messages (submitNewLocation lower be s) = messages s @ (w @ lm @ [msg_added])"
      by (simp add: sub showLoading_def f s3 s2)
    then have m: "new_messages s (submitNewLocation lower be s) = w @ lm @ [msg_added]"
      by (rule new_messages_append)
    show ?thesis
      by (intro disjI2 exI [of _ d] exI [of _ e] exI [of _ ok] exI [of _ ext] exI [of _ w] exI [of _ lm]
          conjI c m f(2) f(4) s3(3) s3(4))
  qed
qed

lemma no_writes_no_fulfilled_write:
  "no_writes e \<Longrightarrow> list_all (\<lambda>c. \<not> (is_write (fst c) \<and> snd c)) e"
  by (simp add: no_writes_def list_all_iff)

lemma upload_first_call:
  assumes "currentUser s = Some uid"
  shows "\<exists>rest. requests (snd (uploadImageToStorage be f i s))
           = requests s @ (UploadBytes (uploadPathAt be uid i f (now s)) f,
                           uploadBytes_result be (now s) (uploadPathAt be uid i f (now s)) f) # rest"
  using assms
  by (auto simp: uploadImageToStorage_def Let_def issue_def consoleError_def uploadPathAt_def
      split: option.splits)

lemma replace_effect:
  "\<exists>e. requests (snd (replaceImage be i s)) = requests s @ e \<and> no_writes e
       \<and> (if fst (replaceImage be i s) = None then True else \<not> upload_failed e)"
  "messages (snd (replaceImage be i s)) = messages s"
proof -
  show "messages (snd (replaceImage be i s)) = messages s"
    by (simp add: replaceImage_def Let_def upload_keeps storage_delete_calls split: option.splits)
  show "\<exists>e. requests (snd (replaceImage be i s)) = requests s @ e \<and> no_writes e
       \<and> (if fst (replaceImage be i s) = None then True else \<not> upload_failed e)"
  proof (cases "selectedEditImage s")
    case None
    then show ?thesis
      by (intro exI [of _ "[]"]) (simp add: replaceImage_def)
  next
    case (Some img)
    define s1 where "s1 = (case currentLocationImageUrl s of None \<Rightarrow> s
        | Some old \<Rightarrow> if old = [] then s else deleteImageFromStorage be old s)"
    define up where "up = uploadImageToStorage be img i s1"
    have r: "replaceImage be i s = (case fst up of None \<Rightarrow> None | Some url \<Rightarrow> Some (Some url), snd up)"
      using Some by (simp add: replaceImage_def Let_def s1_def up_def)
    obtain e1 where e1: "requests s1 = requests s @ e1" "no_writes e1" "\<not> upload_failed e1"
    proof (cases "storagePathOf (case currentLocationImageUrl s of None \<Rightarrow> [] | Some old \<Rightarrow> old)")
      case (Path p)
      then have "requests s1 = requests s @ [(DeleteObject p, deleteObject_result be (now s) p)]"
        by (auto simp: s1_def storage_delete_calls storagePathOf_def js_split_def split: option.splits)
      then show ?thesis
        by (intro that [of "[(DeleteObject p, deleteObject_result be (now s) p)]"]) simp_all
    next
      case NoPath
      then have "requests s1 = requests s @ []"
        by (auto simp: s1_def storage_delete_calls split: option.splits)
      then show ?thesis
        by (intro that [of "[]"]) simp_all
    next
      case BadEncoding
      then have "requests s1 = requests s @ []"
        by (auto simp: s1_def storage_delete_calls split: option.splits)
      then show ?thesis
        by (intro that [of "[]"]) simp_all
    qed
    obtain e2 where e2: "requests (snd up) = requests s1 @ e2" "no_writes e2"
        "if fst up = None then currentUser s1 = None \<or> upload_failed e2 else \<not> upload_failed e2"
      unfolding up_def using upload_effect [of be img i s1] by (elim exE conjE)
    show ?thesis
      by (intro exI [of _ "e1 @ e2"]) (use e1 e2 in \<open>auto simp: r split: option.splits\<close>)
  qed
qed

lemma update_cases:
  "(no_writes (new_calls s (updateLocation be s))
      \<and> (if upload_failed (new_calls s (updateLocation be s))
         then new_messages s (updateLocation be s) = [msg_update_failed] else True))
   \<or> (\<exists>e i u ok rest.
         new_calls s (updateLocation be s) = e @ (UpdateDoc i u, ok) # rest
         \<and> no_writes e \<and> \<not> upload_failed e
         \<and> (if ok then \<exists>ok' ext. rest = (GetDocs, ok') # ext \<and> user_fetches ext else rest = []))"
proof (cases "truthy (editingLocationId s) \<and> trim (edit_title s) \<noteq> []")
  case False
  then have "requests (updateLocation be s) = requests s @ []"
    by (auto simp: updateLocation_def truthy_def Let_def showError_def showMessage_def
        split: option.splits)
  then have "new_calls s (updateLocation be s) = []"
    by (rule new_calls_append)
  then show ?thesis by simp
next
  case True
  then obtain i where i: "editingLocationId s = Some i" "i \<noteq> []" and ti: "trim (edit_title s) \<noteq> []"
    by (auto simp: truthy_def split: option.splits)
  define s1 where "s1 = showLoading True s"
  define img where "img = replaceImage be i s1"
  obtain e where e: "requests (snd img) = requests s1 @ e" "no_writes e"
      "if fst img = None then True else \<not> upload_failed e"
    unfolding img_def using replace_effect(1) [of be i s1] by (elim exE conjE)
  have m: "messages (snd img) = messages s1"
    by (simp add: img_def replace_effect(2))
  have s1: "requests s1 = requests s" "messages s1 = messages s"
    by (simp_all add: s1_def showLoading_def)
  show ?thesis
  proof (cases "fst img")
    case None
    then have u: "updateLocation be s = showLoading False (updateLocationFailed (snd img))"
      using i ti unfolding img_def s1_def
      by (simp add: updateLocation_def Let_def showLoading_def)
    have "requests (updateLocation be s) = requests s @ e"
      by (simp add: u showLoading_def updateLocationFailed_def showError_def showMessage_def
          consoleError_def e s1)
    then have c: "new_calls s (updateLocation be s) = e"
      by (rule new_calls_append)
    have "messages (updateLocation be s) = messages s @ [msg_update_failed]"
      by (simp add: u showLoading_def updateLocationFailed_def showError_def showMessage_def
          consoleError_def m s1 msg_update_failed_def)
    then have "new_messages s (updateLocation be s) = [msg_update_failed]"
      by (rule new_messages_append)
    with c e(2) show ?thesis by simp
  next
    case (Some imageUrl)
    define u where "u = EditFields (trim (edit_title s)) (trim (edit_notes s)) (trim (edit_address s))
        (if truthy imageUrl then imageUrl else None)"
    define ok where "ok = updateDoc_result be (now (snd img)) i u"
    define s2 where "s2 = issue (UpdateDoc i u) ok (snd img)"
    have s2: "requests s2 = requests s @ e @ [(UpdateDoc i u, ok)]"
      by (simp add: s2_def issue_def e s1)
    have nf: "\<not> upload_failed e"
      using e(3) Some by simp
    show ?thesis
    proof (cases ok)
      case False
      then have "updateLocation be s = showLoading False (updateLocationFailed s2)"
        using i ti Some unfolding s2_def ok_def u_def img_def s1_def
        by (simp add: updateLocation_def Let_def showLoading_def)
      then have "requests (updateLocation be s) = requests s @ (e @ (UpdateDoc i u, ok) # [])"
        by (simp add: showLoading_def updateLocationFailed_def showError_def showMessage_def
            consoleError_def s2)
      then have "new_calls s (updateLocation be s) = e @ (UpdateDoc i u, ok) # []"
        by (rule new_calls_append)
      with False e(2) nf show ?thesis
        by (intro disjI2 exI [of _ e] exI [of _ i] exI [of _ u] exI [of _ ok] exI [of _ "[]"]) simp
    next
      case True
      define s3 where "s3 = s2\<lparr>edit_modal := False, editingLocationId := None,
          selectedEditImage := None, currentLocationImageUrl := None\<rparr>"
      from True have upd: "updateLocation be s
          = showLoading False (showSuccess ''Location updated successfully!'' (loadLocationsFromFirestore be s3))"
        using i ti Some unfolding s3_def s2_def ok_def u_def img_def s1_def
        by (simp add: updateLocation_def Let_def showLoading_def)
      obtain ok' ext where l: "requests (loadLocationsFromFirestore be s3) = requests s3 @ (GetDocs, ok') # ext"
          "user_fetches ext"
        using load_calls [of be s3] by (elim exE conjE)
      have s3: "requests s3 = requests s2"
        by (simp add: s3_def)
      have "requests (updateLocation be s) = requests s @ (e @ (UpdateDoc i u, ok) # (GetDocs, ok') # ext)"
        by (simp add: upd showLoading_def showSuccess_def showMessage_def l s3 s2)
      then have "new_calls s (updateLocation be s) = e @ (UpdateDoc i u, ok) # (GetDocs, ok') # ext"
        by (rule new_calls_append)
      with True e(2) nf l(2) show ?thesis
        by (intro disjI2 exI [of _ e] exI [of _ i] exI [of _ u] exI [of _ ok]
            exI [of _ "(GetDocs, ok') # ext"]) simp
    qed
  qed
qed

lemma storage_delete_effect:
  "\<exists>e. requests (deleteImageFromStorage be url s) = requests s @ e \<and> no_writes e
       \<and> \<not> list_ex (\<lambda>x. fst x = GetDocs) e"
  by (cases "storagePathOf url") (simp_all add: storage_delete_calls)

lemma delete_cases:
  "new_calls s (deleteLocationById be i s) = [(GetLocation i, False)]
   \<or> (\<exists>e ok rest.
         new_calls s (deleteLocationById be i s) = (GetLocation i, True) # e @ (DeleteDoc i, ok) # rest
         \<and> no_writes e
         \<and> (if ok then \<exists>ok' ext. rest = (GetDocs, ok') # ext \<and> user_fetches ext else rest = []))"
proof (cases "getLocation_result be (now s) i")
  case None
  then have "requests (deleteLocationById be i s) = requests s @ [(GetLocation i, False)]"
    by (simp add: deleteLocationById_def Let_def showLoading_def now_def issue_def
        deleteLocationFailed_def showError_def showMessage_def consoleError_def)
  then have "new_calls s (deleteLocationById be i s) = [(GetLocation i, False)]"
    by (rule new_calls_append)
  then show ?thesis by simp
next
  case (Some locationDoc)
  define s2 where "s2 = issue (GetLocation i) True (showLoading True s)"
  define s3 where "s3 = (case locationDoc of None \<Rightarrow> s2
      | Some d \<Rightarrow> (case doc_imageUrl d of None \<Rightarrow> s2
          | Some url \<Rightarrow> if url = [] then s2 else deleteImageFromStorage be url s2))"
  define ok where "ok = deleteDoc_result be (now s3) i"
  define s4 where "s4 = issue (DeleteDoc i) ok s3"
  have s2: "requests s2 = requests s @ [(GetLocation i, True)]"
    by (simp add: s2_def issue_def showLoading_def)
  have "\<exists>e. requests s3 = requests s2 @ e \<and> no_writes e"
  proof (cases "\<exists>d url. locationDoc = Some d \<and> doc_imageUrl d = Some url \<and> url \<noteq> []")
    case True
    then obtain d url where "locationDoc = Some d" "doc_imageUrl d = Some url" "url \<noteq> []"
      by (elim exE conjE)
    then have "s3 = deleteImageFromStorage be url s2"
      by (simp add: s3_def)
    then show ?thesis
      using storage_delete_effect [of be url s2] by auto
  next
    case False
    then have "s3 = s2"
      by (auto simp: s3_def split: option.splits)
    then show ?thesis
      by (intro exI [of _ "[]"]) simp
  qed
  then obtain e where e: "requests s3 = requests s2 @ e" "no_writes e"
    by (elim exE conjE)
  have s4: "requests s4 = requests s @ (GetLocation i, True) # e @ [(DeleteDoc i, ok)]"
    by (simp add: s4_def issue_def e s2)
  have del: "deleteLocationById be i s
      = showLoading False (if \<not> ok then deleteLocationFailed s4
          else showSuccess ''Location deleted successfully!'' (loadLocationsFromFirestore be s4))"
    using Some unfolding s4_def ok_def s3_def s2_def
    by (simp add: deleteLocationById_def Let_def showLoading_def now_def split: option.splits)
  show ?thesis
  proof (cases ok)
    case False
    then have "requests (deleteLocationById be i s) = requests s @ ((GetLocation i, True) # e @ (DeleteDoc i, ok) # [])"
      by (simp add: del showLoading_def deleteLocationFailed_def showError_def showMessage_def
          consoleError_def s4)
    then have "new_calls s (deleteLocationById be i s) = (GetLocation i, True) # e @ (DeleteDoc i, ok) # []"
      by (rule new_calls_append)
    with False e(2) show ?thesis
      by (intro disjI2 exI [of _ e] exI [of _ ok] exI [of _ "[]"]) simp
  next
    case True
    obtain ok' ext where l: "requests (loadLocationsFromFirestore be s4) = requests s4 @ (GetDocs, ok') # ext"
        "user_fetches ext"
      using load_calls [of be s4] by (elim exE conjE)
    from True have "requests (deleteLocationById be i s)
        = requests s @ ((GetLocation i, True) # e @ (DeleteDoc i, ok) # (GetDocs, ok') # ext)"
      by (simp add: del showLoading_def showSuccess_def showMessage_def l s4)
    then have "new_calls s (deleteLocationById be i s)
        = (GetLocation i, True) # e @ (DeleteDoc i, ok) # (GetDocs, ok') # ext"
      by (rule new_calls_append)
    with True e(2) l(2) show ?thesis
      by (intro disjI2 exI [of _ e] exI [of _ ok] exI [of _ "(GetDocs, ok') # ext"]) simp
  qed
qed

lemma writes_reloaded_delete: "writes_reloaded (new_calls s (deleteLocationById be i s))"
proof -
  consider "new_calls s (deleteLocationById be i s) = [(GetLocation i, False)]"
    | e ok rest where "new_calls s (deleteLocationById be i s) = (GetLocation i, True) # e @ (DeleteDoc i, ok) # rest"
        "no_writes e" "if ok then \<exists>ok' ext. rest = (GetDocs, ok') # ext \<and> user_fetches ext else rest = []"
    using delete_cases [of s be i] by (elim disjE exE conjE)
  then show ?thesis
  proof cases
    case 1
    then show ?thesis
      by (simp add: writes_reloaded_def)
  next
    case (2 e ok rest)
    show ?thesis
    proof (cases ok)
      case False
      with 2 show ?thesis
        by (intro writes_reloaded_none) (auto simp: no_writes_def list_all_iff)
    next
      case True
      with 2(3) obtain ok' ext where r: "rest = (GetDocs, ok') # ext" "user_fetches ext"
        by auto
      have "writes_reloaded (((GetLocation i, True) # e @ [(DeleteDoc i, ok)]) @ (GetDocs, ok') # ext)"
        by (rule writes_reloaded_tail) (rule user_fetches_plain(1) [OF r(2)])
      then show ?thesis
        by (simp add: 2(1) r(1))
    qed
  qed
qed

lemma writes_reloaded_update: "writes_reloaded (new_calls s (updateLocation be s))"
proof -
  consider "no_writes (new_calls s (updateLocation be s))"
    | e i u ok rest where "new_calls s (updateLocation be s) = e @ (UpdateDoc i u, ok) # rest"
        "no_writes e" "if ok then \<exists>ok' ext. rest = (GetDocs, ok') # ext \<and> user_fetches ext else rest = []"
    using update_cases [of s be] by (elim disjE exE conjE)
  then show ?thesis
  proof cases
    case 1
    then show ?thesis
      by (intro writes_reloaded_none no_writes_no_fulfilled_write)
  next
    case (2 e i u ok rest)
    show ?thesis
    proof (cases ok)
      case False
      with 2 show ?thesis
        by (intro writes_reloaded_none) (auto simp: no_writes_def list_all_iff)
    next
      case True
      with 2(3) obtain ok' ext where r: "rest = (GetDocs, ok') # ext" "user_fetches ext"
        by auto
      have "writes_reloaded ((e @ [(UpdateDoc i u, ok)]) @ (GetDocs, ok') # ext)"
        by (rule writes_reloaded_tail) (rule user_fetches_plain(1) [OF r(2)])
      then show ?thesis
        by (simp add: 2(1) r(1))
    qed
  qed
qed

lemma writes_reloaded_submit: "writes_reloaded (new_calls s (submitNewLocation lower be s))"
proof -
  consider "new_calls s (submitNewLocation lower be s) = []"
    | d where "new_calls s (submitNewLocation lower be s) = [(AddDoc d, False)]"
    | d e ok ext where "new_calls s (submitNewLocation lower be s) = (AddDoc d, True) # e @ (GetDocs, ok) # ext"
        "user_fetches ext"
    using submit_cases [of s lower be] by (elim disjE exE conjE)
  then show ?thesis
  proof cases
    case 1
    then show ?thesis by (simp add: writes_reloaded_def)
  next
    case (2 d)
    then show ?thesis by (simp add: writes_reloaded_def)
  next
    case (3 d e ok ext)
    have "writes_reloaded (((AddDoc d, True) # e) @ (GetDocs, ok) # ext)"
      by (rule writes_reloaded_tail) (rule user_fetches_plain(1) [OF 3(2)])
    then show ?thesis
      by (simp add: 3(1))
  qed
qed

lemma remove_image_calls:
  "\<not> list_ex (\<lambda>x. fst x = GetDocs) (new_calls s (handleRemoveImage be c s))"
proof (cases "truthy (currentLocationImageUrl s) \<and> truthy (editingLocationId s) \<and> c")
  case False
  then have "requests (handleRemoveImage be c s) = requests s @ []"
    by (auto simp: handleRemoveImage_def truthy_def split: option.splits)
  then have "new_calls s (handleRemoveImage be c s) = []"
    by (rule new_calls_append)
  then show ?thesis by simp
next
  case True
  then obtain url i where u: "currentLocationImageUrl s = Some url" "url \<noteq> []"
      "editingLocationId s = Some i" "i \<noteq> []" "c"
    by (auto simp: truthy_def split: option.splits)
  define s2 where "s2 = deleteImageFromStorage be url (showLoading True s)"
  obtain e where e: "requests s2 = requests (showLoading True s) @ e" "\<not> list_ex (\<lambda>x. fst x = GetDocs) e"
    unfolding s2_def using storage_delete_effect [of be url "showLoading True s"] by (elim exE conjE)
  have "requests (handleRemoveImage be c s)
        = requests s @ (e @ [(UpdateDoc i ClearImageUrl, updateDoc_result be (now s2) i ClearImageUrl)])"
    using u e(1) unfolding s2_def
    by (simp add: handleRemoveImage_def Let_def showLoading_def issue_def removeImageFailed_def
        showError_def showSuccess_def showMessage_def consoleError_def)
  then have "new_calls s (handleRemoveImage be c s)
        = e @ [(UpdateDoc i ClearImageUrl, updateDoc_result be (now s2) i ClearImageUrl)]"
    by (rule new_calls_append)
  with e(2) show ?thesis by simp
qed

text \<open>
  C2, as the code has it. Whatever the backend answers, every fulfilled document write
  that Create (\<^verbatim>\<open>submitNewLocation\<close>), Update (\<^verbatim>\<open>updateLocation\<close>) or Delete
  (\<^verbatim>\<open>deleteLocationById\<close> and its two callers) makes is followed by the fetch of all
  locations, that is by a reload of the Location Store. Remove-image-only
  (\<^verbatim>\<open>handleRemoveImage\<close>) never makes that fetch.
\<close>

theorem writes_followed_by_reload:
  "writes_reloaded (new_calls s (submitNewLocation lower be s))
   \<and> writes_reloaded (new_calls s (updateLocation be s))
   \<and> writes_reloaded (new_calls s (deleteLocationById be i s))
   \<and> writes_reloaded (new_calls s (confirmDeleteLocation be c i s))
   \<and> writes_reloaded (new_calls s (deleteLocation be c s))
   \<and> \<not> list_ex (\<lambda>x. fst x = GetDocs) (new_calls s (handleRemoveImage be c s))"
proof -
  have nil: "writes_reloaded []" "new_calls s s = []"
    by (simp_all add: new_calls_def writes_reloaded_def)
  have a: "writes_reloaded (new_calls s (confirmDeleteLocation be c i s))"
    by (cases c) (simp_all add: confirmDeleteLocation_def writes_reloaded_delete nil)
  have "new_calls s ((deleteLocationById be j s)\<lparr>edit_modal := False, editingLocationId := None\<rparr>)
        = new_calls s (deleteLocationById be j s)" for j
    by (simp add: new_calls_def)
  then have b: "writes_reloaded (new_calls s (deleteLocation be c s))"
    by (simp add: deleteLocation_def writes_reloaded_delete nil split: option.splits)
  show ?thesis
    by (intro conjI writes_reloaded_submit writes_reloaded_update writes_reloaded_delete a b
        remove_image_calls)
qed

theorem writes_followed_by_reload_witness:
  "(DeleteDoc ''L1'', True) \<in> set (new_calls app0 (deleteLocationById be_empty ''L1'' app0))
   \<and> reload_follows (new_calls app0 (deleteLocationById be_empty ''L1'' app0)) (DeleteDoc ''L1'', True)
   \<and> (UpdateDoc ''L1'' (EditFields ''Blue Cafe'' [] []
          (Some ''https://storage.example/v0/b/bucket/o/locations/u1/L1_1700.png?alt=media'')), True)
       \<in> set (new_calls app_edit (updateLocation be_empty app_edit))
   \<and> reload_follows (new_calls app_edit (updateLocation be_empty app_edit))
        (UpdateDoc ''L1'' (EditFields ''Blue Cafe'' [] []
          (Some ''https://storage.example/v0/b/bucket/o/locations/u1/L1_1700.png?alt=media'')), True)"
proof -
  have e: "new_calls app0 (deleteLocationById be_empty ''L1'' app0)
           = [(GetLocation ''L1'', True), (DeleteDoc ''L1'', True), (GetDocs, True)]"
    by code_simp
  have "writes_reloaded (new_calls app0 (deleteLocationById be_empty ''L1'' app0))"
    using writes_followed_by_reload [of app0 asciiLowerCase be_empty "''L1''" True]
    by (rule conjunct1 [OF conjunct2 [OF conjunct2]])
  then have a: "reload_follows (new_calls app0 (deleteLocationById be_empty ''L1'' app0)) (DeleteDoc ''L1'', True)"
    unfolding writes_reloaded_def list_all_iff by (simp add: e)
  have f: "new_calls app_edit (updateLocation be_empty app_edit)
           = [(DeleteObject ''locations/u1/L1_5.png'', True),
              (UploadBytes ''locations/u1/L1_1700.png'' photo, True),
              (GetDownloadURL ''locations/u1/L1_1700.png'', True),
              (UpdateDoc ''L1'' (EditFields ''Blue Cafe'' [] []
                 (Some ''https://storage.example/v0/b/bucket/o/locations/u1/L1_1700.png?alt=media'')), True),
              (GetDocs, True)]"
    by code_simp
  have "writes_reloaded (new_calls app_edit (updateLocation be_empty app_edit))"
    using writes_followed_by_reload [of app_edit asciiLowerCase be_empty "''L1''" True]
    by (rule conjunct1 [OF conjunct2])
  then have b: "reload_follows (new_calls app_edit (updateLocation be_empty app_edit))
        (UpdateDoc ''L1'' (EditFields ''Blue Cafe'' [] []
          (Some ''https://storage.example/v0/b/bucket/o/locations/u1/L1_1700.png?alt=media'')), True)"
    unfolding writes_reloaded_def list_all_iff by (simp add: f)
  from a b show ?thesis
    by (simp add: e f)
qed

text \<open>
  C2 as stated fails for Remove-image-only: the patch of the record is fulfilled and no
  fetch of the locations follows.
\<close>

theorem remove_image_without_reload:
  "(UpdateDoc ''L1'' ClearImageUrl, True) \<in> set (new_calls app_edit (handleRemoveImage be_ok True app_edit))
   \<and> \<not> list_ex (\<lambda>x. fst x = GetDocs) (new_calls app_edit (handleRemoveImage be_ok True app_edit))
   \<and> \<not> writes_reloaded (new_calls app_edit (handleRemoveImage be_ok True app_edit))"
  by code_simp




lemma storagePathOf_empty: "storagePathOf [] = NoPath"
  by (simp add: storagePathOf_def js_split_def)

lemma replace_first_calls:
  assumes "selectedEditImage s = Some img" and "currentLocationImageUrl s = Some old"
    and "currentUser s = Some uid"
  shows "case storagePathOf old of
           Path p \<Rightarrow>
             \<exists>rest. requests (snd (replaceImage be i s))
               = requests s @ (DeleteObject p, deleteObject_result be (now s) p)
                   # (UploadBytes (uploadPathAt be uid i img (Suc (now s))) img,
                      uploadBytes_result be (Suc (now s)) (uploadPathAt be uid i img (Suc (now s))) img)
                   # rest
         | _ \<Rightarrow>
             \<exists>rest. requests (snd (replaceImage be i s))
               = requests s @ (UploadBytes (uploadPathAt be uid i img (now s)) img,
                      uploadBytes_result be (now s) (uploadPathAt be uid i img (now s)) img)
                   # rest"
proof -
  define s1 where "s1 = (if old = [] then s else deleteImageFromStorage be old s)"
  have r: "snd (replaceImage be i s) = snd (uploadImageToStorage be img i s1)"
    using assms(1,2) by (simp add: replaceImage_def Let_def s1_def)
  have cu: "currentUser s1 = Some uid"
    using assms(3) by (simp add: s1_def storage_delete_calls)
  obtain rest where rest: "requests (snd (uploadImageToStorage be img i s1))
      = requests s1 @ (UploadBytes (uploadPathAt be uid i img (now s1)) img,
          uploadBytes_result be (now s1) (uploadPathAt be uid i img (now s1)) img) # rest"
    using upload_first_call [OF cu, of be img i] by (elim exE)
  show ?thesis
  proof (cases "storagePathOf old")
    case (Path p)
    then have "old \<noteq> []"
      using storagePathOf_empty by auto
    then have "requests s1 = requests s @ [(DeleteObject p, deleteObject_result be (now s) p)]"
      by (simp add: s1_def storage_delete_calls Path)
    then have "requests (snd (replaceImage be i s))
        = requests s @ (DeleteObject p, deleteObject_result be (now s) p)
            # (UploadBytes (uploadPathAt be uid i img (Suc (now s))) img,
               uploadBytes_result be (Suc (now s)) (uploadPathAt be uid i img (Suc (now s))) img)
            # rest"
      using rest by (simp add: r now_def)
    then show ?thesis
      by (simp only: Path pathResult.case) (rule exI [of _ rest], simp)
  next
    case NoPath
    then have "requests s1 = requests s"
      by (simp add: s1_def storage_delete_calls)
    then have "requests (snd (replaceImage be i s))
        = requests s @ (UploadBytes (uploadPathAt be uid i img (now s)) img,
               uploadBytes_result be (now s) (uploadPathAt be uid i img (now s)) img) # rest"
      using rest by (simp add: r now_def)
    then show ?thesis
      by (simp only: NoPath pathResult.case) (rule exI [of _ rest], simp)
  next
    case BadEncoding
    then have "requests s1 = requests s"
      by (simp add: s1_def storage_delete_calls)
    then have "requests (snd (replaceImage be i s))
        = requests s @ (UploadBytes (uploadPathAt be uid i img (now s)) img,
               uploadBytes_result be (now s) (uploadPathAt be uid i img (now s)) img) # rest"
      using rest by (simp add: r now_def)
    then show ?thesis
      by (simp only: BadEncoding pathResult.case) (rule exI [of _ rest], simp)
  qed
qed

lemma update_prefix:
  assumes "editingLocationId s = Some i" and "i \<noteq> []" and "trim (edit_title s) \<noteq> []"
  shows "\<exists>more. requests (updateLocation be s)
           = requests (snd (replaceImage be i (showLoading True s))) @ more"
proof -
  define img where "img = replaceImage be i (showLoading True s)"
  show ?thesis
  proof (cases "fst img")
    case None
    then have "requests (updateLocation be s) = requests (snd img) @ []"
      using assms unfolding img_def
      by (simp add: updateLocation_def Let_def showLoading_def updateLocationFailed_def
          showError_def showMessage_def consoleError_def)
    then show ?thesis
      unfolding img_def by (rule exI)
  next
    case (Some imageUrl)
    define u where "u = EditFields (trim (edit_title s)) (trim (edit_notes s)) (trim (edit_address s))
        (if truthy imageUrl then imageUrl else None)"
    define ok where "ok = updateDoc_result be (now (snd img)) i u"
    define s2 where "s2 = issue (UpdateDoc i u) ok (snd img)"
    have s2: "requests s2 = requests (snd img) @ [(UpdateDoc i u, ok)]"
      by (simp add: s2_def issue_def)
    show ?thesis
    proof (cases ok)
      case False
      then have "updateLocation be s = showLoading False (updateLocationFailed s2)"
        using assms Some unfolding s2_def ok_def u_def img_def
        by (simp add: updateLocation_def Let_def showLoading_def)
      then have "requests (updateLocation be s) = requests (snd img) @ [(UpdateDoc i u, ok)]"
        by (simp add: showLoading_def updateLocationFailed_def showError_def showMessage_def
            consoleError_def s2)
      then show ?thesis
        unfolding img_def by (rule exI)
    next
      case True
      define s3 where "s3 = s2\<lparr>edit_modal := False, editingLocationId := None,
          selectedEditImage := None, currentLocationImageUrl := None\<rparr>"
      from True have upd: "updateLocation be s
          = showLoading False (showSuccess ''Location updated successfully!'' (loadLocationsFromFirestore be s3))"
        using assms Some unfolding s3_def s2_def ok_def u_def img_def
        by (simp add: updateLocation_def Let_def showLoading_def)
      obtain ok' ext where l: "requests (loadLocationsFromFirestore be s3) = requests s3 @ (GetDocs, ok') # ext"
        using load_calls [of be s3] by (elim exE conjE)
      have s3: "requests s3 = requests s2"
        by (simp add: s3_def)
      have "requests (updateLocation be s)
            = requests (snd img) @ ((UpdateDoc i u, ok) # (GetDocs, ok') # ext)"
        by (simp add: upd showLoading_def showSuccess_def showMessage_def l s3 s2)
      then show ?thesis
        unfolding img_def by (rule exI)
    qed
  qed
qed

text \<open>The first calls of an Update that replaces the image, by what the old URL holds.\<close>

lemma update_first_calls:
  assumes "editingLocationId s = Some i" and "i \<noteq> []" and "trim (edit_title s) \<noteq> []"
    and "selectedEditImage s = Some img" and "currentLocationImageUrl s = Some old"
    and "currentUser s = Some uid"
  shows "case storagePathOf old of
           Path p \<Rightarrow>
             \<exists>rest. new_calls s (updateLocation be s)
               = (DeleteObject p, deleteObject_result be (now s) p)
                   # (UploadBytes (uploadPathAt be uid i img (Suc (now s))) img,
                      uploadBytes_result be (Suc (now s)) (uploadPathAt be uid i img (Suc (now s))) img)
                   # rest
         | _ \<Rightarrow>
             \<exists>rest. new_calls s (updateLocation be s)
               = (UploadBytes (uploadPathAt be uid i img (now s)) img,
                      uploadBytes_result be (now s) (uploadPathAt be uid i img (now s)) img)
                   # rest"
proof -
  define s1 where "s1 = showLoading True s"
  have s1: "selectedEditImage s1 = Some img" "currentLocationImageUrl s1 = Some old"
      "currentUser s1 = Some uid" "requests s1 = requests s" "now s1 = now s"
    using assms by (simp_all add: s1_def showLoading_def now_def)
  obtain more where more: "requests (updateLocation be s) = requests (snd (replaceImage be i s1)) @ more"
    unfolding s1_def using update_prefix [OF assms(1-3), of be] by (elim exE)
  note first = replace_first_calls [OF s1(1-3), of be i]
  show ?thesis
  proof (cases "storagePathOf old")
    case (Path p)
    with first obtain rest where "requests (snd (replaceImage be i s1))
        = requests s @ (DeleteObject p, deleteObject_result be (now s) p)
            # (UploadBytes (uploadPathAt be uid i img (Suc (now s))) img,
               uploadBytes_result be (Suc (now s)) (uploadPathAt be uid i img (Suc (now s))) img)
            # rest"
      by (auto simp: s1(4,5))
    then have "requests (updateLocation be s)
        = requests s @ ((DeleteObject p, deleteObject_result be (now s) p)
            # (UploadBytes (uploadPathAt be uid i img (Suc (now s))) img,
               uploadBytes_result be (Suc (now s)) (uploadPathAt be uid i img (Suc (now s))) img)
            # (rest @ more))"
      by (simp add: more)
    then have "new_calls s (updateLocation be s)
        = (DeleteObject p, deleteObject_result be (now s) p)
            # (UploadBytes (uploadPathAt be uid i img (Suc (now s))) img,
               uploadBytes_result be (Suc (now s)) (uploadPathAt be uid i img (Suc (now s))) img)
            # (rest @ more)"
      by (rule new_calls_append)
    then show ?thesis
      by (simp only: Path pathResult.case) (rule exI [of _ "rest @ more"], simp)
  next
    case NoPath
    with first obtain rest where "requests (snd (replaceImage be i s1))
        = requests s @ (UploadBytes (uploadPathAt be uid i img (now s)) img,
               uploadBytes_result be (now s) (uploadPathAt be uid i img (now s)) img) # rest"
      by (auto simp: s1(4,5))
    then have "requests (updateLocation be s)
        = requests s @ ((UploadBytes (uploadPathAt be uid i img (now s)) img,
               uploadBytes_result be (now s) (uploadPathAt be uid i img (now s)) img) # (rest @ more))"
      by (simp add: more)
    then have "new_calls s (updateLocation be s)
        = (UploadBytes (uploadPathAt be uid i img (now s)) img,
               uploadBytes_result be (now s) (uploadPathAt be uid i img (now s)) img) # (rest @ more)"
      by (rule new_calls_append)
    then show ?thesis
      by (simp only: NoPath pathResult.case) (rule exI [of _ "rest @ more"], simp)
  next
    case BadEncoding
    with first obtain rest where "requests (snd (replaceImage be i s1))
        = requests s @ (UploadBytes (uploadPathAt be uid i img (now s)) img,
               uploadBytes_result be (now s) (uploadPathAt be uid i img (now s)) img) # rest"
      by (auto simp: s1(4,5))
    then have "requests (updateLocation be s)
        = requests s @ ((UploadBytes (uploadPathAt be uid i img (now s)) img,
               uploadBytes_result be (now s) (uploadPathAt be uid i img (now s)) img) # (rest @ more))"
      by (simp add: more)
    then have "new_calls s (updateLocation be s)
        = (UploadBytes (uploadPathAt be uid i img (now s)) img,
               uploadBytes_result be (now s) (uploadPathAt be uid i img (now s)) img) # (rest @ more)"
      by (rule new_calls_append)
    then show ?thesis
      by (simp only: BadEncoding pathResult.case) (rule exI [of _ "rest @ more"], simp)
  qed
qed

text \<open>
  C9. Take an Update with a non-empty title, a newly staged image and a signed-in user,
  of a record with a stored image: its image URL is one a storage path can be read off
  (a non-empty part after \<^verbatim>\<open>/o/\<close> that decodes), as the download URLs are that the
  page stores. The first call of the update is the deletion of that path; the second,
  made once the deletion has been answered and whatever the answer, is the upload of
  the new image.
\<close>

theorem old_image_deleted_before_upload:
  assumes "editingLocationId s = Some i" and "i \<noteq> []" and "trim (edit_title s) \<noteq> []"
    and "selectedEditImage s = Some img" and "currentLocationImageUrl s = Some old"
    and "currentUser s = Some uid" and "storagePathOf old = Path p"
  shows "\<exists>rest. new_calls s (updateLocation be s)
           = (DeleteObject p, deleteObject_result be (now s) p)
               # (UploadBytes (uploadPathAt be uid i img (Suc (now s))) img,
                  uploadBytes_result be (Suc (now s)) (uploadPathAt be uid i img (Suc (now s))) img)
               # rest"
  using update_first_calls [OF assms(1-6), of be] by (simp only: assms(7) pathResult.case)

theorem old_image_deleted_before_upload_witness:
  "editingLocationId app_edit = Some ''L1'' \<and> ''L1'' \<noteq> [] \<and> trim (edit_title app_edit) \<noteq> []
   \<and> selectedEditImage app_edit = Some photo
   \<and> currentLocationImageUrl app_edit
       = Some ''https://storage.example/v0/b/bucket/o/locations%2Fu1%2FL1_5.png?alt=media''
   \<and> currentUser app_edit = Some ''u1''
   \<and> storagePathOf ''https://storage.example/v0/b/bucket/o/locations%2Fu1%2FL1_5.png?alt=media''
       = Path ''locations/u1/L1_5.png''
   \<and> (\<exists>rest. new_calls app_edit (updateLocation be_no_delete app_edit)
         = (DeleteObject ''locations/u1/L1_5.png'', False)
             # (UploadBytes ''locations/u1/L1_1700.png'' photo, True) # rest)"
proof -
  have t: "trim ''Blue Cafe'' \<noteq> []"
    by code_simp
  have h: "editingLocationId app_edit = Some ''L1''" "''L1'' \<noteq> []" "trim (edit_title app_edit) \<noteq> []"
      "selectedEditImage app_edit = Some photo"
      "currentLocationImageUrl app_edit
       = Some ''https://storage.example/v0/b/bucket/o/locations%2Fu1%2FL1_5.png?alt=media''"
      "currentUser app_edit = Some ''u1''"
    using t by (simp_all add: app_edit_def app0_def)
  have p: "storagePathOf ''https://storage.example/v0/b/bucket/o/locations%2Fu1%2FL1_5.png?alt=media''
       = Path ''locations/u1/L1_5.png''"
    by code_simp
  have u: "uploadPathAt be_no_delete ''u1'' ''L1'' photo (Suc (now app_edit)) = ''locations/u1/L1_1700.png''"
    by code_simp
  have r: "deleteObject_result be_no_delete (now app_edit) ''locations/u1/L1_5.png'' = False"
      "uploadBytes_result be_no_delete (Suc (now app_edit)) ''locations/u1/L1_1700.png'' photo = True"
    by (simp_all add: be_no_delete_def be_empty_def be_ok_def)
  from old_image_deleted_before_upload [OF h p, of be_no_delete] h p show ?thesis
    by (simp add: u r)
qed

end
